theory Spec2Isabelle
  imports Complex_Main "HOL-Library.Multiset"
begin

section \<open>JavaScript strings and numbers used by lh-audit.js\<close>

text \<open>
  Strings are character lists. The conversions below are the ones the script relies on:
  the decimal numeral of an integral Number (template literals),
  \<open>String.prototype.padStart\<close> with a one-character filler, and \<open>parseInt\<close> without a
  radix argument.
\<close>

definition digit_char :: "nat \<Rightarrow> char" where
  "digit_char d = char_of (48 + d)"

fun nat_string :: "nat \<Rightarrow> string" where
  "nat_string n =
     (if n < 10 then [digit_char n] else nat_string (n div 10) @ [digit_char (n mod 10)])"

declare nat_string.simps [simp del]

text \<open>
  The numeral a template literal prints for an integral Number. It is the JavaScript
  rendering for magnitudes below \<open>10^21\<close>, which covers every score, hour and byte count
  of the script.
\<close>

definition int_string :: "int \<Rightarrow> string" where
  "int_string i = (if i < 0 then CHR ''-'' # nat_string (nat (- i)) else nat_string (nat i))"

definition padStart :: "nat \<Rightarrow> char \<Rightarrow> string \<Rightarrow> string" where
  "padStart targetLength filler s = replicate (targetLength - length s) filler @ s"

definition is_digit :: "char \<Rightarrow> bool" where
  "is_digit c = (48 \<le> (of_char c :: nat) \<and> (of_char c :: nat) \<le> 57)"

definition digit_val :: "char \<Rightarrow> nat" where
  "digit_val c = of_char c - 48"

definition is_space :: "char \<Rightarrow> bool" where
  "is_space c = (c = CHR '' '' \<or> (9 \<le> (of_char c :: nat) \<and> (of_char c :: nat) \<le> 13))"

definition is_hex_digit :: "char \<Rightarrow> bool" where
  "is_hex_digit c =
     (is_digit c \<or> (97 \<le> (of_char c :: nat) \<and> (of_char c :: nat) \<le> 102)
      \<or> (65 \<le> (of_char c :: nat) \<and> (of_char c :: nat) \<le> 70))"

definition hex_val :: "char \<Rightarrow> nat" where
  "hex_val c =
     (if is_digit c then of_char c - 48
      else if 97 \<le> (of_char c :: nat) then of_char c - 87 else of_char c - 55)"

definition digits_value :: "string \<Rightarrow> nat" where
  "digits_value ds = foldl (\<lambda>a c. 10 * a + digit_val c) 0 ds"

definition hex_value :: "string \<Rightarrow> nat" where
  "hex_value hs = foldl (\<lambda>a c. 16 * a + hex_val c) 0 hs"

definition has_hex_prefix :: "string \<Rightarrow> bool" where
  "has_hex_prefix u =
     (case u of a # b # _ \<Rightarrow> a = CHR ''0'' \<and> (b = CHR ''x'' \<or> b = CHR ''X'') | _ \<Rightarrow> False)"

text \<open>
  \<open>parseInt(s)\<close> without a radix: leading (ASCII) white space is skipped, one sign is
  accepted, a prefix \<open>0x\<close> selects radix 16, and the longest prefix of digits is read;
  \<open>None\<close> is NaN (no digit found).
\<close>

definition parseInt :: "string \<Rightarrow> int option" where
  "parseInt s =
     (let t = dropWhile is_space s;
          neg = (case t of c # _ \<Rightarrow> c = CHR ''-'' | [] \<Rightarrow> False);
          u = (case t of c # r \<Rightarrow> if c = CHR ''-'' \<or> c = CHR ''+'' then r else t | [] \<Rightarrow> t);
          sign = (if neg then - 1 else 1)
      in if has_hex_prefix u
         then (let hs = takeWhile is_hex_digit (drop 2 u)
               in if hs = [] then None else Some (sign * int (hex_value hs)))
         else (let ds = takeWhile is_digit u
               in if ds = [] then None else Some (sign * int (digits_value ds))))"

section \<open>The time window: checkTime\<close>

text \<open>
  A reading of \<open>moment().tz("Australia/Sydney")\<close>: the hour of the day in that zone
  (what \<open>format("H")\<close> prints, 0 to 23) and \<open>weekday()\<close> (0 to 6).
\<close>

record moment =
  hour :: nat
  weekday :: nat

definition format_H :: "moment \<Rightarrow> string" where
  "format_H date = nat_string (hour date)"

definition checkTime :: "moment \<Rightarrow> bool" where
  "checkTime date =
     (let hour = parseInt (format_H date);
          weekday = weekday date
      in (case hour of None \<Rightarrow> False | Some h \<Rightarrow> h \<ge> 9 \<and> h \<le> 18)
         \<and> weekday \<noteq> 0 \<and> weekday \<noteq> 6)"

section \<open>Numbers: IEEE doubles\<close>

text \<open>
  A Number of the script is a double. A double is kept as the real number it denotes;
  \<open>fl x\<close> is the double nearest to the real \<open>x\<close>, ties going to the even significand
  (53 bits; below \<open>2^-1022\<close> the spacing stays \<open>2^-1074\<close>). A real is a double when
  rounding leaves it unchanged. Every arithmetic operation of the script is the exact
  operation followed by \<open>fl\<close>, and a decimal literal \<open>c\<close> of the source is
  \<open>fl c\<close>. Infinity and NaN have no counterpart: the magnitudes the script handles
  stay far below \<open>2^1024\<close>.

  \<open>rne\<close> rounds a real to the nearest integer, ties to even; \<open>expo x\<close> is the binary
  exponent of \<open>x\<close>, found by stepping down from 1023 and stopping at \<open>-1022\<close>.
\<close>

definition rne :: "real \<Rightarrow> int" where
  "rne y =
     (let f = \<lfloor>y\<rfloor>; d = y - of_int f
      in if d < 1 / 2 then f else if 1 / 2 < d then f + 1 else if even f then f else f + 1)"

fun expo_from :: "nat \<Rightarrow> int \<Rightarrow> real \<Rightarrow> int" where
  "expo_from 0 e x = e"
| "expo_from (Suc n) e x = (if 2 powi e \<le> x then e else expo_from n (e - 1) x)"

definition expo :: "real \<Rightarrow> int" where
  "expo x = expo_from 2045 1023 \<bar>x\<bar>"

definition fl :: "real \<Rightarrow> real" where
  "fl x =
     (let q = 2 powi (expo x - 52)
      in sgn x * (q * of_int (rne (\<bar>x\<bar> / q))))"

definition is_double :: "real \<Rightarrow> bool" where
  "is_double x \<longleftrightarrow> fl x = x"

section \<open>Console text and number formatting\<close>

text \<open>
  The functions \<open>red\<close>, \<open>yellow\<close>, \<open>green\<close>, \<open>italic\<close> and \<open>bold\<close> of
  \<open>colors/safe\<close> decorate a string for the terminal. A decorated string is kept as a
  list of segments, each with the style applied to it (\<open>None\<close> for undecorated text),
  so that the characters and the decoration stay apart.
\<close>

datatype style = Red | Yellow | Green | Italic | Bold

type_synonym styled = "(style option \<times> string) list"

definition plain :: "string \<Rightarrow> styled" where
  "plain s = [(None, s)]"

definition paint :: "style \<Rightarrow> string \<Rightarrow> styled" where
  "paint c s = [(Some c, s)]"

definition text_of :: "styled \<Rightarrow> string" where
  "text_of t = concat (map snd t)"

fun join_styled :: "string \<Rightarrow> styled list \<Rightarrow> styled" where
  "join_styled sep [] = []"
| "join_styled sep [t] = t"
| "join_styled sep (t # ts) = t @ plain sep @ join_styled sep ts"

definition colorizeByScore :: "string \<Rightarrow> real \<Rightarrow> styled" where
  "colorizeByScore text score =
     (if score > fl 0.89 then paint Green text
      else if score > fl 0.49 then paint Yellow text
      else paint Red text)"

definition formatScore :: "real \<Rightarrow> bool \<Rightarrow> styled" where
  "formatScore score colorize =
     (let number = int_string \<lfloor>fl (score * 100)\<rfloor>
      in if colorize then colorizeByScore (padStart 3 CHR '' '' number) score
         else plain (padStart 3 CHR '' '' number))"

text \<open>
  \<open>x.toFixed(f)\<close>: the sign, then the integer nearest to \<open>|x| * 10^f\<close> (the larger one
  at a tie), printed with at least \<open>f + 1\<close> digits and a point before the last \<open>f\<close>.
  The nearest integer is taken of the exact value of the double \<open>x\<close>, with no rounding
  in between.
\<close>

definition toFixed :: "nat \<Rightarrow> real \<Rightarrow> string" where
  "toFixed f x =
     (let n = nat \<lfloor>\<bar>x\<bar> * 10 ^ f + 1 / 2\<rfloor>;
          m = padStart (f + 1) CHR ''0'' (nat_string n);
          k = length m - f
      in (if x < 0 then [CHR ''-''] else []) @
         (if f = 0 then m else take k m @ [CHR ''.''] @ drop k m))"

definition formatDuration :: "real \<Rightarrow> string" where
  "formatDuration durationInMs =
     (let seconds = fl (durationInMs / 1000) in toFixed 2 seconds @ '' s'')"

definition formatWeight :: "real \<Rightarrow> string" where
  "formatWeight weight = toFixed 1 (fl (weight * 100))"

definition formatWeightedScore :: "real \<Rightarrow> real \<Rightarrow> string" where
  "formatWeightedScore score weight =
     (let weightedScore = fl (score * weight)
      in formatWeight weightedScore @ ''/'' @ formatWeight weight)"

text \<open>
  \<open>Math.round\<close> (the nearest integer of the exact value, the larger one at a tie) and
  the remainder operator \<open>%\<close> (sign of the dividend; exact on integers).
\<close>

definition js_round :: "real \<Rightarrow> int" where
  "js_round x = \<lfloor>x + 1 / 2\<rfloor>"

definition js_rem :: "int \<Rightarrow> int \<Rightarrow> int" where
  "js_rem a b = (if a < 0 then - ((- a) mod \<bar>b\<bar>) else a mod \<bar>b\<bar>)"

definition formatBytes :: "real \<Rightarrow> string" where
  "formatBytes bytes =
     (let kiloBytes = js_round (fl (bytes / 1000));
          thousand = \<lfloor>fl (real_of_int kiloBytes / 1000)\<rfloor>;
          hundred = int_string (js_rem kiloBytes 1000)
      in if thousand \<noteq> 0
         then int_string thousand @ '','' @ padStart 3 CHR ''0'' hundred @ '' KB''
         else hundred @ '' KB'')"

section \<open>Reports\<close>

text \<open>
  The object built by \<open>condenseReport\<close> has twelve numeric properties: the performance
  score, a duration and a score for each of five audits, and the total byte weight. A
  report is a function from the property to its value; \<open>timing a\<close> is the property
  named after the audit (such as \<open>firstContentfulPaint\<close>) and \<open>scoreOf a\<close> the one
  with the suffix \<open>Score\<close>.
\<close>

datatype audit =
  firstContentfulPaint | firstMeaningfulPaint | speedIndex | timeToInteractive | firstCpuIdle

datatype metric = performanceScore | timing audit | scoreOf audit | totalByteWeight

type_synonym report = "metric \<Rightarrow> real"

record audit_result =
  numericValue :: real
  score :: real

record lhr =
  categories_performance_score :: real
  audits :: "string \<Rightarrow> audit_result"

record artifacts =
  BenchmarkIndex :: int

record results =
  lhr :: lhr
  artifacts :: artifacts

definition audit_id :: "audit \<Rightarrow> string" where
  "audit_id a =
     (case a of
        firstContentfulPaint \<Rightarrow> ''first-contentful-paint''
      | firstMeaningfulPaint \<Rightarrow> ''first-meaningful-paint''
      | speedIndex \<Rightarrow> ''speed-index''
      | timeToInteractive \<Rightarrow> ''interactive''
      | firstCpuIdle \<Rightarrow> ''first-cpu-idle'')"

definition condenseReport :: "lhr \<Rightarrow> report" where
  "condenseReport results =
     (\<lambda>m. case m of
        performanceScore \<Rightarrow> categories_performance_score results
      | timing a \<Rightarrow> numericValue (audits results (audit_id a))
      | scoreOf a \<Rightarrow> score (audits results (audit_id a))
      | totalByteWeight \<Rightarrow> numericValue (audits results ''total-byte-weight''))"

definition formatAudit :: "report \<Rightarrow> audit \<Rightarrow> real \<Rightarrow> bool \<Rightarrow> styled" where
  "formatAudit results auditName weight colorize =
     (let auditScore = results (scoreOf auditName);
          text = formatDuration (results (timing auditName)) @ '' ('' @
                 formatWeightedScore auditScore weight @ '')''
      in if colorize then colorizeByScore text auditScore else plain text)"

definition oneliner :: "report \<Rightarrow> string \<Rightarrow> styled" where
  "oneliner r url =
     join_styled '', ''
       [paint Italic url,
        paint Italic ''p:'' @ plain '' '' @ formatScore (r performanceScore) True,
        paint Italic ''fcp:'' @ plain '' '' @ formatAudit r firstContentfulPaint (fl (3 / 15)) True,
        paint Italic ''fmp:'' @ plain '' '' @ formatAudit r firstMeaningfulPaint (fl (1 / 15)) True,
        paint Italic ''speed:'' @ plain '' '' @ formatAudit r speedIndex (fl (4 / 15)) True,
        paint Italic ''cpu:'' @ plain '' '' @ formatAudit r firstCpuIdle (fl (2 / 15)) True,
        paint Italic ''tti:'' @ plain '' '' @ formatAudit r timeToInteractive (fl (5 / 15)) True,
        paint Italic ''size:'' @ plain '' '' @ plain (formatBytes (r totalByteWeight))]"

section \<open>The record stream, the console and the collaborators\<close>

text \<open>
  One object handed to \<open>csvWriter.writeRecords\<close>. The error row has only \<open>site\<close> and
  \<open>type\<close>; its metric columns are absent.
\<close>

record row =
  site :: string
  type :: string
  p :: "string option"
  fcp :: "string option"
  fmp :: "string option"
  speed :: "string option"
  cpu :: "string option"
  tti :: "string option"
  size' :: "string option"

datatype js_error = ReferenceError string

text \<open>
  Everything the script changes or consumes while it runs:
  \<^item> \<open>reads\<close>: how many times \<open>moment()\<close> has been read;
  \<^item> \<open>attempts\<close>: the URLs handed to \<open>lighthouse\<close>, in call order;
  \<^item> \<open>csv\<close>: the rows written to \<open>logged-results.csv\<close>, oldest first;
  \<^item> \<open>console\<close>: the lines printed by \<open>console.log\<close>;
  \<^item> \<open>assets\<close>: the base names under which \<open>assetSaver.saveAssets\<close> was called;
  \<^item> \<open>unhandled\<close>: errors thrown inside promises that nothing awaits or catches;
  \<^item> \<open>running\<close>: the loop index of every \<open>doScript\<close> call that is waiting at
    \<open>await multipleTimes(urlsToCheck[i], ...)\<close>;
  \<^item> \<open>intervals\<close>: the active timers of \<open>setInterval\<close>, each with the
    \<open>pausePoint\<close> its callback closes over; \<open>nextInterval\<close> is the next timer id;
  \<^item> \<open>timerLog\<close>: the calls of \<open>setInterval\<close>, \<open>clearInterval\<close> and of
    \<open>doScript\<close> from a timer callback, in order.
\<close>

datatype timer_call = SetInterval nat nat | ClearInterval nat | Resume nat nat

record world =
  reads :: nat
  attempts :: "string list"
  csv :: "row list"
  console :: "styled list"
  assets :: "string list"
  unhandled :: "js_error list"
  running :: "nat list"
  intervals :: "(nat \<times> nat) list"
  nextInterval :: nat
  timerLog :: "timer_call list"

text \<open>
  What one call of \<open>lighthouse(url, {port}, lighthouseConfig)\<close> settles to: a rejection
  (with the text printed for the error) or a result.
\<close>

datatype outcome = Rejected string | Resolved results

text \<open>
  The surroundings of a run: the list exported by \<open>./urls-to-check\<close>, the option
  \<open>cmd.storeLogs\<close>, the clock (\<open>now k\<close> is the \<open>k\<close>-th reading of
  \<open>moment().tz("Australia/Sydney")\<close>) and the audit engine (\<open>lighthouse k url\<close> is
  what the \<open>k\<close>-th call of \<open>lighthouse\<close> settles to).
\<close>

record env =
  urlsToCheck :: "string list"
  cmd_storeLogs :: bool
  now :: "nat \<Rightarrow> moment"
  lighthouse :: "nat \<Rightarrow> string \<Rightarrow> outcome"

definition GMEAN_PREFIX :: string where
  "GMEAN_PREFIX = ''GMEAN: ''"

text \<open>
  \<open>console.log\<close> and \<open>csvWriter.writeRecords\<close>. The writer finishes a write later, on
  its own; a row counts as written when the call is made, which fixes the order of the
  rows as the order of the calls.
\<close>

definition console_log :: "styled \<Rightarrow> world \<Rightarrow> world" where
  "console_log line w = w\<lparr>console := console w @ [line]\<rparr>"

definition writeRecords :: "row list \<Rightarrow> world \<Rightarrow> world" where
  "writeRecords rs w = w\<lparr>csv := csv w @ rs\<rparr>"

text \<open>The object literal that \<open>addToLogs\<close> hands to \<open>writeRecords\<close>.\<close>

definition metric_row :: "report \<Rightarrow> string \<Rightarrow> string \<Rightarrow> row" where
  "metric_row r url type' =
     \<lparr>site = url,
      type = type',
      p = Some (text_of (formatScore (r performanceScore) False)),
      fcp = Some (text_of (formatAudit r firstContentfulPaint (fl (3 / 15)) False)),
      fmp = Some (text_of (formatAudit r firstMeaningfulPaint (fl (1 / 15)) False)),
      speed = Some (text_of (formatAudit r speedIndex (fl (4 / 15)) False)),
      cpu = Some (text_of (formatAudit r firstCpuIdle (fl (2 / 15)) False)),
      tti = Some (text_of (formatAudit r timeToInteractive (fl (5 / 15)) False)),
      size' = Some (formatBytes (r totalByteWeight))\<rparr>"

definition addToLogs :: "report \<Rightarrow> string \<Rightarrow> string \<Rightarrow> world \<Rightarrow> world" where
  "addToLogs r url type' w = writeRecords [metric_row r url type'] w"

text \<open>The object literal that \<open>logError\<close> hands to \<open>writeRecords\<close>.\<close>

definition error_row :: "string \<Rightarrow> row" where
  "error_row url =
     \<lparr>site = url, type = ''Error: site not loaded'',
      p = None, fcp = None, fmp = None, speed = None, cpu = None, tti = None, size' = None\<rparr>"

text \<open>
  The names an identifier inside \<open>logError\<close> can resolve to: its parameter, the
  bindings of the module (the \<open>require\<close>d constants, the constants and the functions
  declared at top level) and the bindings Node gives every module. The global object of
  Node has no property \<open>r\<close> either.
\<close>

definition module_scope :: "string list" where
  "module_scope =
     [''lighthouse'', ''chromeLauncher'', ''red'', ''yellow'', ''green'', ''italic'', ''bold'',
      ''path'', ''fs'', ''assetSaver'', ''commander'', ''computeGmean'', ''createCsvWriter'',
      ''urlsToCheck'', ''moment'', ''lighthouseConfig'', ''GMEAN_PREFIX'', ''storedLogs'',
      ''csvWriter'', ''runLighthouse'', ''condenseReport'', ''oneliner'', ''addToLogs'',
      ''logError'', ''formatScore'', ''formatAudit'', ''colorizeByScore'', ''formatDuration'',
      ''formatWeightedScore'', ''formatWeight'', ''formatBytes'', ''multipleTimes'',
      ''checkTime'', ''doScript'', ''pauseScript'',
      ''exports'', ''require'', ''module'', ''__filename'', ''__dirname'',
      ''console'', ''process'']"

definition logError_scope :: "string list" where
  "logError_scope = ''url'' # module_scope"

definition resolve :: "string list \<Rightarrow> string \<Rightarrow> js_error + unit" where
  "resolve scope name = (if name \<in> set scope then Inr () else Inl (ReferenceError name))"

text \<open>
  \<open>logError\<close> writes the error row and then runs the callback of \<open>then\<close>, whose
  argument \<open>formatScore(r.performanceScore, false)\<close> is evaluated before
  \<open>console.log\<close> is called. Evaluating the identifier \<open>r\<close> throws when no binding is
  found; the promise of \<open>logError\<close> is then rejected, and since \<open>runLighthouse\<close>
  neither awaits nor catches it the error is an unhandled rejection. It is recorded in
  \<open>unhandled\<close>. Here, and in \<open>runLighthouse\<close> and \<open>multipleTimes\<close> below, the host
  only warns about unhandled rejections and the script goes on (Node up to version 14);
  the section after \<open>multipleTimes\<close> has the same functions for a host that ends the
  process instead.
  No binding of the scope holds a report, so had \<open>r\<close> resolved, \<open>r.performanceScore\<close>
  would be \<open>undefined\<close> and the line would end in \<open>NaN\<close>.
\<close>

definition logError :: "string \<Rightarrow> world \<Rightarrow> world" where
  "logError url w =
     (let w1 = writeRecords [error_row url] w
      in case resolve logError_scope ''r'' of
           Inl e \<Rightarrow> w1\<lparr>unhandled := unhandled w1 @ [e]\<rparr>
         | Inr _ \<Rightarrow> console_log (plain ''Logged error NaN'') w1)"

text \<open>
  \<open>runLighthouse\<close>: one audit attempt. Launching and killing Chrome is left to the
  launcher and has no counterpart here. The result is the condensed report, or \<open>None\<close>
  for \<open>null\<close>.
\<close>

definition runLighthouse :: "env \<Rightarrow> string \<Rightarrow> bool \<Rightarrow> world \<Rightarrow> report option \<times> world" where
  "runLighthouse e lighthouseUrl storeLogs w =
     (let settled = lighthouse e (length (attempts w)) lighthouseUrl;
          w1 = w\<lparr>attempts := attempts w @ [lighthouseUrl]\<rparr>
      in case settled of
           Resolved results \<Rightarrow>
             (let condensedReport = condenseReport (lhr results);
                  w2 = addToLogs condensedReport lighthouseUrl ''PARTIAL'' w1;
                  w3 = console_log
                         (plain (map (\<lambda>_. CHR '' '') GMEAN_PREFIX) @
                          oneliner condensedReport lighthouseUrl) w2;
                  w4 = (if storeLogs
                        then w3\<lparr>assets := assets w3 @
                                 [int_string (BenchmarkIndex (artifacts results))]\<rparr>
                        else w3)
              in (Some condensedReport, w4))
         | Rejected error \<Rightarrow>
             (let w2 = console_log (plain error) w1;
                  w3 = logError lighthouseUrl w2
              in (None, w3)))"

section \<open>Aggregation\<close>

text \<open>
  Modelled from the spec: the function \<open>computeGmean\<close> comes from the package
  \<open>compute-gmean\<close>, which is not among the sources. The specification (section 4.4)
  says: for each named numeric field, compute the geometric mean \<open>exp(mean(ln(x_i)))\<close>.
  It defines the mean for a non-empty batch of positive values only, and the results
  about it below are stated for such batches. Of a batch with a value that is zero or
  negative one fact alone is used: the mean is an exponential, hence positive, and so is
  none of these values.
\<close>

definition computeGmean :: "real list \<Rightarrow> real" where
  "computeGmean arr = exp (sum_list (map ln arr) / real (length arr))"

text \<open>
  The object \<open>gmean\<close> of \<open>multipleTimes\<close>: for every property of the first report,
  the mean of that property over all reports of the batch.
\<close>

definition gmean :: "report list \<Rightarrow> report" where
  "gmean multipleResults =
     (\<lambda>metric. let valuesOfMetric = map (\<lambda>r. r metric) multipleResults
               in computeGmean valuesOfMetric)"

text \<open>The loop \<open>for (const j of new Array(3))\<close>, with the number of rounds left.\<close>

fun attempt_loop ::
  "env \<Rightarrow> string \<Rightarrow> bool \<Rightarrow> nat \<Rightarrow> report list \<Rightarrow> world \<Rightarrow> report list \<times> world" where
  "attempt_loop e url storeLogs 0 multipleResults w = (multipleResults, w)"
| "attempt_loop e url storeLogs (Suc n) multipleResults w =
     (case runLighthouse e url storeLogs w of
        (Some result, w') \<Rightarrow> attempt_loop e url storeLogs n (multipleResults @ [result]) w'
      | (None, w') \<Rightarrow> attempt_loop e url storeLogs n multipleResults w')"

definition multipleTimes :: "env \<Rightarrow> string \<Rightarrow> bool \<Rightarrow> world \<Rightarrow> world" where
  "multipleTimes e url storeLogs w =
     (case attempt_loop e url storeLogs 3 [] w of
        (multipleResults, w1) \<Rightarrow>
          if length multipleResults > 0
          then (let g = gmean multipleResults;
                    w2 = console_log (paint Bold GMEAN_PREFIX @ oneliner g url) w1
                in addToLogs g url ''GMEAN'' w2)
          else w1)"

section \<open>The batch on either host\<close>

text \<open>
  What the host does with a rejected promise that nothing handles is its own choice
  (Node's option \<open>--unhandled-rejections\<close>): it prints a warning and goes on (\<open>warn\<close>,
  the default up to Node 14), or it raises an uncaught exception, which ends the process
  (\<open>throw\<close>, the default from Node 15). The sources fix neither. The functions of this
  section are \<open>logError\<close>, \<open>runLighthouse\<close>, the loop and \<open>multipleTimes\<close> once more,
  for either host; a call that the process does not outlive yields \<open>Exited\<close>.
\<close>

datatype host = Warns | Throws

datatype 'a completion = Returned 'a | Exited

text \<open>
  On \<open>Throws\<close> the process ends when the callback of \<open>logError\<close> throws, that is
  once the error row has been written. Killing Chrome and launching it again takes far
  longer than that write, so the next call of \<open>lighthouse\<close> is never made.
\<close>

definition logError_on :: "host \<Rightarrow> string \<Rightarrow> world \<Rightarrow> unit completion \<times> world" where
  "logError_on h url w =
     (let w1 = writeRecords [error_row url] w
      in case resolve logError_scope ''r'' of
           Inl e \<Rightarrow>
             (case h of Warns \<Rightarrow> Returned () | Throws \<Rightarrow> Exited,
              w1\<lparr>unhandled := unhandled w1 @ [e]\<rparr>)
         | Inr _ \<Rightarrow> (Returned (), console_log (plain ''Logged error NaN'') w1))"

definition runLighthouse_on ::
  "host \<Rightarrow> env \<Rightarrow> string \<Rightarrow> bool \<Rightarrow> world \<Rightarrow> report option completion \<times> world" where
  "runLighthouse_on h e lighthouseUrl storeLogs w =
     (let settled = lighthouse e (length (attempts w)) lighthouseUrl;
          w1 = w\<lparr>attempts := attempts w @ [lighthouseUrl]\<rparr>
      in case settled of
           Resolved results \<Rightarrow>
             (let condensedReport = condenseReport (lhr results);
                  w2 = addToLogs condensedReport lighthouseUrl ''PARTIAL'' w1;
                  w3 = console_log
                         (plain (map (\<lambda>_. CHR '' '') GMEAN_PREFIX) @
                          oneliner condensedReport lighthouseUrl) w2;
                  w4 = (if storeLogs
                        then w3\<lparr>assets := assets w3 @
                                 [int_string (BenchmarkIndex (artifacts results))]\<rparr>
                        else w3)
              in (Returned (Some condensedReport), w4))
         | Rejected error \<Rightarrow>
             (let w2 = console_log (plain error) w1
              in case logError_on h lighthouseUrl w2 of
                   (Returned _, w3) \<Rightarrow> (Returned None, w3)
                 | (Exited, w3) \<Rightarrow> (Exited, w3)))"

fun attempt_loop_on ::
  "host \<Rightarrow> env \<Rightarrow> string \<Rightarrow> bool \<Rightarrow> nat \<Rightarrow> report list \<Rightarrow> world
   \<Rightarrow> report list completion \<times> world" where
  "attempt_loop_on h e url storeLogs 0 multipleResults w = (Returned multipleResults, w)"
| "attempt_loop_on h e url storeLogs (Suc n) multipleResults w =
     (case runLighthouse_on h e url storeLogs w of
        (Returned (Some result), w') \<Rightarrow>
          attempt_loop_on h e url storeLogs n (multipleResults @ [result]) w'
      | (Returned None, w') \<Rightarrow> attempt_loop_on h e url storeLogs n multipleResults w'
      | (Exited, w') \<Rightarrow> (Exited, w'))"

definition multipleTimes_on ::
  "host \<Rightarrow> env \<Rightarrow> string \<Rightarrow> bool \<Rightarrow> world \<Rightarrow> unit completion \<times> world" where
  "multipleTimes_on h e url storeLogs w =
     (case attempt_loop_on h e url storeLogs 3 [] w of
        (Returned multipleResults, w1) \<Rightarrow>
          (Returned (),
           if length multipleResults > 0
           then (let g = gmean multipleResults;
                     w2 = console_log (paint Bold GMEAN_PREFIX @ oneliner g url) w1
                 in addToLogs g url ''GMEAN'' w2)
           else w1)
      | (Exited, w1) \<Rightarrow> (Exited, w1))"

section \<open>The scheduler: doScript and pauseScript\<close>

text \<open>
  The scheduler is given for a host that warns, on which a batch always returns.
\<close>

text \<open>
  \<open>pauseScript\<close> starts a timer whose callback closes over \<open>pausePoint\<close>.
\<close>

definition pauseScript :: "nat \<Rightarrow> world \<Rightarrow> world" where
  "pauseScript pausePoint w =
     w\<lparr>intervals := intervals w @ [(nextInterval w, pausePoint)],
       nextInterval := Suc (nextInterval w),
       timerLog := timerLog w @ [SetInterval (nextInterval w) pausePoint]\<rparr>"

text \<open>
  \<open>doScript e i\<close> is the loop of \<open>doScript\<close> from the test \<open>i < urlsToCheck.length\<close>
  up to the point where it gives up control: it ends (the list is exhausted), or it reads
  the clock and either calls \<open>multipleTimes\<close> and waits for it (\<open>i\<close> joins
  \<open>running\<close>) or calls \<open>pauseScript\<close> and breaks.
\<close>

definition doScript :: "env \<Rightarrow> nat \<Rightarrow> world \<Rightarrow> world" where
  "doScript e i w =
     (if i < length (urlsToCheck e)
      then (let date = now e (reads w);
                w1 = w\<lparr>reads := Suc (reads w)\<rparr>
            in if checkTime date
               then (console_log (plain ''It's a great time to run the script'') w1)
                      \<lparr>running := running w1 @ [i]\<rparr>
               else pauseScript i (console_log (plain ''Terrible time to run the script'') w1))
      else w)"

text \<open>
  The call of \<open>multipleTimes\<close> that the \<open>k\<close>-th waiting \<open>doScript\<close> awaits
  completes: the URL is audited, then the loop goes on with \<open>i + 1\<close>. The three
  attempts are taken as one step; no timer is active while a \<open>doScript\<close> waits
  (\<open>inv\<close> below), so no callback can run between them.
\<close>

definition finish :: "env \<Rightarrow> nat \<Rightarrow> world \<Rightarrow> world" where
  "finish e k w =
     (if k < length (running w)
      then (let i = running w ! k;
                w1 = w\<lparr>running := take k (running w) @ drop (Suc k) (running w)\<rparr>;
                w2 = multipleTimes e (urlsToCheck e ! i) (cmd_storeLogs e) w1
            in doScript e (Suc i) w2)
      else w)"

text \<open>
  The runtime invokes the callback of timer \<open>t\<close>. Only an active timer is invoked;
  \<open>clearInterval\<close> takes the timer out of the active ones.
\<close>

definition clearInterval :: "nat \<Rightarrow> world \<Rightarrow> world" where
  "clearInterval t w =
     w\<lparr>intervals := filter (\<lambda>(t', _). t' \<noteq> t) (intervals w),
       timerLog := timerLog w @ [ClearInterval t]\<rparr>"

definition tick :: "env \<Rightarrow> nat \<Rightarrow> world \<Rightarrow> world" where
  "tick e t w =
     (case map_of (intervals w) t of
        None \<Rightarrow> w
      | Some pausePoint \<Rightarrow>
          (let date = now e (reads w);
               w1 = w\<lparr>reads := Suc (reads w)\<rparr>
           in if checkTime date
              then (let w2 = clearInterval t w1;
                        w3 = console_log
                               (plain (''script resumed at:  '' @ nat_string pausePoint)) w2;
                        w4 = w3\<lparr>timerLog := timerLog w3 @ [Resume t pausePoint]\<rparr>
                    in doScript e pausePoint w4)
              else w1))"

datatype event = Tick nat | Finish nat

fun step :: "env \<Rightarrow> world \<Rightarrow> event \<Rightarrow> world" where
  "step e w (Tick t) = tick e t w"
| "step e w (Finish k) = finish e k w"

definition run :: "env \<Rightarrow> event list \<Rightarrow> world \<Rightarrow> world" where
  "run e evs w = foldl (step e) w evs"

definition start :: world where
  "start = \<lparr>reads = 0, attempts = [], csv = [], console = [], assets = [], unhandled = [],
            running = [], intervals = [], nextInterval = 0, timerLog = []\<rparr>"

text \<open>The action of the command: \<open>doScript(0, cmd)\<close>.\<close>

definition main :: "env \<Rightarrow> world" where
  "main e = doScript e 0 start"

section \<open>Example reports\<close>

text \<open>A report with the same value in every field.\<close>

definition constant_report :: "real \<Rightarrow> report" where
  "constant_report x = (\<lambda>_. x)"

section \<open>Vocabulary of the properties\<close>

text \<open>
  The rows of one kind written for one URL, the outcomes of the three attempts that
  \<open>multipleTimes\<close> makes from a given world, the row each attempt writes, and the
  reports of the attempts that succeeded.
\<close>

definition rows_of :: "string \<Rightarrow> string \<Rightarrow> row list \<Rightarrow> row list" where
  "rows_of kind url rs = filter (\<lambda>r. site r = url \<and> type r = kind) rs"

fun succeeded :: "outcome \<Rightarrow> bool" where
  "succeeded (Resolved _) = True"
| "succeeded (Rejected _) = False"

definition batch_outcomes :: "env \<Rightarrow> string \<Rightarrow> world \<Rightarrow> outcome list" where
  "batch_outcomes e url w = map (\<lambda>j. lighthouse e (length (attempts w) + j) url) [0, 1, 2]"

fun attempt_row :: "string \<Rightarrow> outcome \<Rightarrow> row" where
  "attempt_row url (Resolved res) = metric_row (condenseReport (lhr res)) url ''PARTIAL''"
| "attempt_row url (Rejected _) = error_row url"

fun batch_reports :: "outcome list \<Rightarrow> report list" where
  "batch_reports [] = []"
| "batch_reports (Resolved res # outs) = condenseReport (lhr res) # batch_reports outs"
| "batch_reports (Rejected _ # outs) = batch_reports outs"

text \<open>The line an attempt prints, and the outcomes of \<open>n\<close> attempts from the \<open>k\<close>-th call on.\<close>

fun attempt_line :: "string \<Rightarrow> outcome \<Rightarrow> styled" where
  "attempt_line url (Resolved res) =
     plain (map (\<lambda>_. CHR '' '') GMEAN_PREFIX) @ oneliner (condenseReport (lhr res)) url"
| "attempt_line url (Rejected msg) = plain msg"

definition outcomes_from :: "env \<Rightarrow> string \<Rightarrow> nat \<Rightarrow> nat \<Rightarrow> outcome list" where
  "outcomes_from e url k n = map (\<lambda>j. lighthouse e (k + j) url) [0..<n]"

text \<open>
  The attempts of a batch that are made on a host: all of them when the host warns, those
  up to the first failure when it throws. The batch returns to its caller when the host
  warns or no attempt fails.
\<close>

fun made :: "host \<Rightarrow> outcome list \<Rightarrow> outcome list" where
  "made Warns outs = outs"
| "made Throws [] = []"
| "made Throws (Resolved res # outs) = Resolved res # made Throws outs"
| "made Throws (Rejected msg # outs) = [Rejected msg]"

fun survives :: "host \<Rightarrow> outcome list \<Rightarrow> bool" where
  "survives Warns outs = True"
| "survives Throws outs = list_all succeeded outs"

text \<open>
  The timers cancelled and the timers whose callback resumed the script, in the order of
  the calls.
\<close>

fun cleared_ids :: "timer_call list \<Rightarrow> nat list" where
  "cleared_ids [] = []"
| "cleared_ids (ClearInterval t # cs) = t # cleared_ids cs"
| "cleared_ids (_ # cs) = cleared_ids cs"

fun resumed_ids :: "timer_call list \<Rightarrow> nat list" where
  "resumed_ids [] = []"
| "resumed_ids (Resume t _ # cs) = t # resumed_ids cs"
| "resumed_ids (_ # cs) = resumed_ids cs"

text \<open>
  \<open>audited e c\<close> is what \<open>attempts\<close> holds when the first \<open>c\<close> URLs of the list have
  been audited, each three times and in the order of the list. The cursor of a world is
  the index a waiting \<open>doScript\<close> is at, or the \<open>pausePoint\<close> of the active timer, or
  the length of the list when neither exists.
\<close>

definition audited :: "env \<Rightarrow> nat \<Rightarrow> string list" where
  "audited e c = concat (map (\<lambda>i. replicate 3 (urlsToCheck e ! i)) [0..<c])"

definition cursor :: "env \<Rightarrow> world \<Rightarrow> nat" where
  "cursor e w =
     (case running w of
        i # _ \<Rightarrow> i
      | [] \<Rightarrow> (case intervals w of (t, q) # _ \<Rightarrow> q | [] \<Rightarrow> length (urlsToCheck e)))"

text \<open>
  What holds in every world the script can reach: at most one of a waiting \<open>doScript\<close>
  and an active timer exists, their indices are inside the list, an active timer has not
  been cancelled, timer ids are below \<open>nextInterval\<close>, no timer is cancelled twice,
  every cancellation comes with a resumption, and the URLs before the cursor are the
  ones audited.
\<close>

definition inv :: "env \<Rightarrow> world \<Rightarrow> bool" where
  "inv e w \<longleftrightarrow>
     length (running w) + length (intervals w) \<le> 1
     \<and> (\<forall>i \<in> set (running w). i < length (urlsToCheck e))
     \<and> (\<forall>(t, q) \<in> set (intervals w).
           q < length (urlsToCheck e) \<and> t < nextInterval w
           \<and> t \<notin> set (cleared_ids (timerLog w)))
     \<and> (\<forall>t \<in> set (cleared_ids (timerLog w)). t < nextInterval w)
     \<and> distinct (cleared_ids (timerLog w))
     \<and> resumed_ids (timerLog w) = cleared_ids (timerLog w)
     \<and> attempts w = audited e (cursor e w)"

section \<open>Example surroundings\<close>

text \<open>
  A result with performance score 0.9, a clock that always reads Tuesday 10 o'clock, the
  two-URL scenario of the specification (every audit of \<open>a.example\<close> succeeds, every
  audit of \<open>b.example\<close> fails) and a run whose second audit fails.
\<close>

definition sample_results :: results where
  "sample_results =
     \<lparr>lhr = \<lparr>categories_performance_score = 0.9,
              audits = (\<lambda>_. \<lparr>numericValue = 1200, score = 0.8\<rparr>)\<rparr>,
      artifacts = \<lparr>BenchmarkIndex = 1000\<rparr>\<rparr>"

definition open_hours :: "nat \<Rightarrow> moment" where
  "open_hours k = \<lparr>hour = 10, weekday = 2\<rparr>"

definition example_env :: env where
  "example_env =
     \<lparr>urlsToCheck = [''a.example'', ''b.example''], cmd_storeLogs = False, now = open_hours,
      lighthouse = (\<lambda>k url. if url = ''a.example'' then Resolved sample_results
                              else Rejected ''unreachable'')\<rparr>"

definition flaky_env :: env where
  "flaky_env =
     \<lparr>urlsToCheck = [''a.example''], cmd_storeLogs = False, now = open_hours,
      lighthouse = (\<lambda>k url. if k = 1 then Rejected ''timeout'' else Resolved sample_results)\<rparr>"

text \<open>
  A clock outside the window (Tuesday 20 o'clock), and surroundings in which every audit
  fails and the second and third readings of the clock are outside the window: the
  script audits the first URL, suspends before the second, stays suspended at the first
  callback and resumes at the next one.
\<close>

definition closed_hours :: moment where
  "closed_hours = \<lparr>hour = 20, weekday = 2\<rparr>"

definition night_env :: env where
  "night_env =
     \<lparr>urlsToCheck = [''a.example'', ''b.example''], cmd_storeLogs = False,
      now = (\<lambda>k. if k = 1 \<or> k = 2 then closed_hours else open_hours k),
      lighthouse = (\<lambda>k url. Rejected ''unreachable'')\<rparr>"

definition suspended_world :: world where
  "suspended_world = run night_env [Finish 0, Tick 0] (main night_env)"

definition resumed_world :: world where
  "resumed_world = run night_env [Finish 0, Tick 0, Tick 0] (main night_env)"

section \<open>Properties of the conversions\<close>

lemma is_digit_digit_char: "d < 10 \<Longrightarrow> is_digit (digit_char d)"
  by (simp add: is_digit_def digit_char_def)

lemma digit_val_digit_char: "d < 10 \<Longrightarrow> digit_val (digit_char d) = d"
  by (simp add: digit_val_def digit_char_def)

lemma nat_string_digits: "c \<in> set (nat_string n) \<Longrightarrow> is_digit c"
proof (induction n arbitrary: c rule: nat_string.induct)
  case (1 n)
  show ?case
  proof (cases "n < 10")
    case True
    with "1.prems" show ?thesis
      by (simp add: nat_string.simps [of n] is_digit_digit_char)
  next
    case False
    with "1.prems" have "c \<in> set (nat_string (n div 10)) \<or> c = digit_char (n mod 10)"
      by (auto simp: nat_string.simps [of n])
    then show ?thesis
      using "1.IH" [OF False] by (auto simp: is_digit_digit_char)
  qed
qed

lemma nat_string_nonempty: "nat_string n \<noteq> []"
  by (subst nat_string.simps) simp

lemma digits_value_snoc: "digits_value (ds @ [c]) = 10 * digits_value ds + digit_val c"
  by (simp add: digits_value_def)

lemma digits_value_nat_string: "digits_value (nat_string n) = n"
proof (induction n rule: nat_string.induct)
  case (1 n)
  show ?case
  proof (cases "n < 10")
    case True
    then show ?thesis
      by (simp add: nat_string.simps [of n] digits_value_def digit_val_digit_char)
  next
    case False
    then show ?thesis
      using "1.IH" by (simp add: nat_string.simps [of n] digits_value_snoc digit_val_digit_char)
  qed
qed

lemma length_nat_string_one: "n < 10 \<Longrightarrow> length (nat_string n) = 1"
  by (subst nat_string.simps) simp

lemma length_nat_string_step:
  "\<not> n < 10 \<Longrightarrow> length (nat_string n) = Suc (length (nat_string (n div 10)))"
  by (subst nat_string.simps) simp

lemma length_nat_string_small: "n < 100 \<Longrightarrow> length (nat_string n) \<le> 2"
proof (cases "n < 10")
  case True
  then show ?thesis by (simp add: length_nat_string_one)
next
  case False
  assume "n < 100"
  then have "n div 10 < 10" by simp
  then show ?thesis
    using False by (simp add: length_nat_string_step length_nat_string_one)
qed

lemma length_nat_string_le3: "n \<le> 100 \<Longrightarrow> length (nat_string n) \<le> 3"
proof (cases "n < 10")
  case True
  then show ?thesis by (simp add: length_nat_string_one)
next
  case False
  assume "n \<le> 100"
  then have "n div 10 < 100" by simp
  then show ?thesis
    using False length_nat_string_small [of "n div 10"] by (simp add: length_nat_string_step)
qed

lemma parseInt_nat_string: "parseInt (nat_string n) = Some (int n)"
proof -
  let ?s = "nat_string n"
  obtain c r where s: "?s = c # r"
    using nat_string_nonempty [of n] by (cases ?s) auto
  have all: "\<forall>x \<in> set ?s. is_digit x"
    using nat_string_digits by blast
  have c: "is_digit c" using all s by simp
  have nospace: "\<not> is_space c" and nosign: "c \<noteq> CHR ''-''" "c \<noteq> CHR ''+''"
    using c by (auto simp: is_digit_def is_space_def)
  have tw: "takeWhile is_digit ?s = ?s"
    using all by (simp add: takeWhile_eq_all_conv)
  have nox: "\<not> has_hex_prefix ?s"
  proof (cases r)
    case Nil
    then show ?thesis using s by (simp add: has_hex_prefix_def)
  next
    case (Cons x r')
    then have "is_digit x" using all s by simp
    then have "x \<noteq> CHR ''x''" "x \<noteq> CHR ''X''" by (auto simp: is_digit_def)
    then show ?thesis using s Cons by (simp add: has_hex_prefix_def)
  qed
  have dw: "dropWhile is_space ?s = ?s"
    using s nospace by simp
  have sign: "(case ?s of x # r' \<Rightarrow> if x = CHR ''-'' \<or> x = CHR ''+'' then r' else ?s | [] \<Rightarrow> ?s) = ?s"
    using s nosign by simp
  have neg: "\<not> (case ?s of x # _ \<Rightarrow> x = CHR ''-'' | [] \<Rightarrow> False)"
    using s nosign by simp
  show ?thesis
    unfolding parseInt_def dw Let_def sign tw
    using neg nox nat_string_nonempty [of n]
    by (simp only: digits_value_nat_string if_False simp_thms mult_1)
qed


section \<open>The time window\<close>

lemma checkTime_eq:
  "checkTime date \<longleftrightarrow> (9 \<le> hour date \<and> hour date \<le> 18 \<and> weekday date \<noteq> 0 \<and> weekday date \<noteq> 6)"
  by (simp add: checkTime_def format_H_def parseInt_nat_string Let_def)

text \<open>
  Claim C3. \<open>checkTime\<close> answers true exactly when the hour of the day in the zone
  lies in the closed interval from 9 to 18 and the weekday is neither 0 nor 6. In
  particular it answers false on weekday 0 and on weekday 6 whatever the hour, and false
  for every hour before 9 or after 18.
\<close>

theorem checkTime_window:
  "(checkTime date \<longleftrightarrow>
      (9 \<le> hour date \<and> hour date \<le> 18 \<and> weekday date \<noteq> 0 \<and> weekday date \<noteq> 6))
   \<and> (weekday date = 0 \<or> weekday date = 6 \<longrightarrow> \<not> checkTime date)
   \<and> (hour date < 9 \<or> 18 < hour date \<longrightarrow> \<not> checkTime date)"
  using checkTime_eq [of date] by auto

theorem checkTime_window_witness:
  "checkTime \<lparr>hour = 9, weekday = 1\<rparr> \<and> checkTime \<lparr>hour = 18, weekday = 5\<rparr>
   \<and> \<not> checkTime \<lparr>hour = 12, weekday = 6\<rparr> \<and> \<not> checkTime \<lparr>hour = 12, weekday = 0\<rparr>
   \<and> \<not> checkTime \<lparr>hour = 8, weekday = 3\<rparr> \<and> \<not> checkTime \<lparr>hour = 19, weekday = 3\<rparr>"
  using checkTime_window [of "\<lparr>hour = 9, weekday = 1\<rparr>"]
    checkTime_window [of "\<lparr>hour = 18, weekday = 5\<rparr>"]
    checkTime_window [of "\<lparr>hour = 12, weekday = 6\<rparr>"]
    checkTime_window [of "\<lparr>hour = 12, weekday = 0\<rparr>"]
    checkTime_window [of "\<lparr>hour = 8, weekday = 3\<rparr>"]
    checkTime_window [of "\<lparr>hour = 19, weekday = 3\<rparr>"]
  by simp

section \<open>Rounding to doubles\<close>

lemma pow2_less_iff: "(2::real) powi a < 2 powi b \<longleftrightarrow> a < b"
proof
  assume l: "(2::real) powi a < 2 powi b"
  show "a < b"
  proof (rule ccontr)
    assume "\<not> a < b"
    then have "b \<le> a" by simp
    then have "(2::real) powi b \<le> 2 powi a" by (intro power_int_increasing) simp_all
    then show False using l by simp
  qed
next
  assume "a < b"
  then show "(2::real) powi a < 2 powi b" by (intro power_int_strict_increasing) simp_all
qed

lemma pow2_le_iff: "(2::real) powi a \<le> 2 powi b \<longleftrightarrow> a \<le> b"
  using pow2_less_iff [of b a] by (auto simp: not_less [symmetric])

lemma pow2_Suc: "(2::real) powi (e + 1) = 2 * 2 powi e"
  by (simp add: power_int_add)

lemma pow2_add: "(2::real) powi a * 2 powi b = 2 powi (a + b)"
  by (simp add: power_int_add)

lemma pow2_diff: "(2::real) powi a / 2 powi b = 2 powi (a - b)"
  by (simp add: power_int_diff)

lemma of_int_le_real: "(n::int) \<le> m \<Longrightarrow> (of_int n :: real) \<le> of_int m"
  by simp

lemma of_int_less_real: "(of_int n :: real) < of_int m \<Longrightarrow> (n::int) < m"
  by simp

lemma rne_of_int [simp]: "rne (of_int n) = n"
  by (simp add: rne_def)

lemma rne_0 [simp]: "rne 0 = 0"
  using rne_of_int [of 0] by simp

lemma rne_1 [simp]: "rne 1 = 1"
  using rne_of_int [of 1] by simp

lemma rne_numeral [simp]: "rne (numeral n) = numeral n"
  using rne_of_int [of "numeral n"] by simp

lemma rne_le: "z \<le> of_int N \<Longrightarrow> rne z \<le> N"
proof -
  assume a: "z \<le> of_int N"
  show ?thesis
  proof (cases "z = of_int N")
    case True
    then show ?thesis by simp
  next
    case False
    then have "z < of_int N" using a by simp
    then have "\<lfloor>z\<rfloor> < N" by (simp add: floor_less_iff)
    then show ?thesis by (simp add: rne_def Let_def)
  qed
qed

lemma rne_ge: "of_int N \<le> z \<Longrightarrow> N \<le> rne z"
proof -
  assume "of_int N \<le> z"
  then have "N \<le> \<lfloor>z\<rfloor>" by (simp add: le_floor_iff)
  then show ?thesis by (simp add: rne_def Let_def)
qed

lemma rne_below_half: "z < of_int N - 1 / 2 \<Longrightarrow> rne z \<le> N - 1"
proof -
  assume a: "z < of_int N - 1 / 2"
  then have "z < of_int N" by simp
  then have f: "\<lfloor>z\<rfloor> \<le> N - 1" by (simp add: floor_less_iff)
  show ?thesis
  proof (cases "\<lfloor>z\<rfloor> = N - 1")
    case True
    then have "z - of_int \<lfloor>z\<rfloor> < 1 / 2" using a by simp
    then show ?thesis using True by (simp add: rne_def Let_def)
  next
    case False
    then have "\<lfloor>z\<rfloor> + 1 \<le> N - 1" using f by simp
    then show ?thesis by (simp add: rne_def Let_def)
  qed
qed

lemma expo_from_eq:
  "e - int n \<le> e' \<Longrightarrow> e' \<le> e \<Longrightarrow> 2 powi e' \<le> x \<Longrightarrow> x < 2 powi (e' + 1) \<Longrightarrow>
   expo_from n e x = e'"
proof (induction n arbitrary: e)
  case 0
  then show ?case by simp
next
  case (Suc n)
  show ?case
  proof (cases "2 powi e \<le> x")
    case True
    then have "(2::real) powi e < 2 powi (e' + 1)" using Suc.prems(4) by simp
    then have "e < e' + 1" by (simp add: pow2_less_iff)
    then show ?thesis using True Suc.prems(2) by simp
  next
    case False
    then have "(2::real) powi e' < 2 powi e" using Suc.prems(3) by simp
    then have "e' < e" by (simp add: pow2_less_iff)
    then have "expo_from n (e - 1) x = e'"
      using Suc.prems by (intro Suc.IH) simp_all
    then show ?thesis using False by simp
  qed
qed

lemma expo_from_bounds:
  "x < 2 powi (e + 1) \<Longrightarrow>
   x < 2 powi (expo_from n e x + 1) \<and> e - int n \<le> expo_from n e x \<and> expo_from n e x \<le> e
   \<and> (e - int n < expo_from n e x \<longrightarrow> 2 powi (expo_from n e x) \<le> x)"
proof (induction n arbitrary: e)
  case 0
  then show ?case by simp
next
  case (Suc n)
  show ?case
  proof (cases "2 powi e \<le> x")
    case True
    then show ?thesis using Suc.prems by simp
  next
    case False
    then have "x < 2 powi (e - 1 + 1)" by simp
    from Suc.IH [OF this] show ?thesis using False by auto
  qed
qed

lemma expo_eq:
  "- 1022 \<le> e \<Longrightarrow> e \<le> 1023 \<Longrightarrow> 2 powi e \<le> \<bar>x\<bar> \<Longrightarrow> \<bar>x\<bar> < 2 powi (e + 1) \<Longrightarrow> expo x = e"
  unfolding expo_def by (rule expo_from_eq) simp_all

lemma expo_bounds:
  assumes "\<bar>x\<bar> < 2 powi 1024"
  shows "\<bar>x\<bar> < 2 powi (expo x + 1)" "- 1022 \<le> expo x" "expo x \<le> 1023"
    "- 1022 < expo x \<Longrightarrow> 2 powi (expo x) \<le> \<bar>x\<bar>"
proof -
  have "\<bar>x\<bar> < 2 powi (1023 + 1)" using assms by simp
  from expo_from_bounds [OF this, of 2045]
  show "\<bar>x\<bar> < 2 powi (expo x + 1)" "- 1022 \<le> expo x" "expo x \<le> 1023"
    "- 1022 < expo x \<Longrightarrow> 2 powi (expo x) \<le> \<bar>x\<bar>"
    by (simp_all add: expo_def)
qed

lemma fl_eq:
  "- 1022 \<le> e \<Longrightarrow> e \<le> 1023 \<Longrightarrow> 2 powi e \<le> \<bar>x\<bar> \<Longrightarrow> \<bar>x\<bar> < 2 powi (e + 1) \<Longrightarrow>
   fl x = sgn x * (2 powi (e - 52) * of_int (rne (\<bar>x\<bar> / 2 powi (e - 52))))"
  by (simp add: fl_def expo_eq Let_def)

lemma fl_nonneg: "0 \<le> x \<Longrightarrow> 0 \<le> fl x"
proof -
  assume x: "0 \<le> x"
  have "0 \<le> \<bar>x\<bar> / 2 powi (expo x - 52)" by simp
  then have "of_int 0 \<le> \<bar>x\<bar> / 2 powi (expo x - 52)" by simp
  then have "0 \<le> rne (\<bar>x\<bar> / 2 powi (expo x - 52))" by (rule rne_ge)
  then show ?thesis using x by (simp add: fl_def Let_def sgn_if)
qed

lemma fl_0 [simp]: "fl 0 = 0"
  by (simp add: fl_def)

text \<open>A nonnegative number below a power of two is rounded to at most that power.\<close>

lemma fl_le_pow2:
  assumes "0 \<le> x" "x < 2 powi k" "- 1022 < k" "k \<le> 1024"
  shows "fl x \<le> 2 powi k"
proof -
  have b: "\<bar>x\<bar> < 2 powi 1024"
  proof -
    have "(2::real) powi k \<le> 2 powi 1024" using assms(4) by (simp only: pow2_le_iff)
    then show ?thesis using assms by simp
  qed
  note eb = expo_bounds [OF b]
  let ?r = "expo x"
  have rk: "?r + 1 \<le> k"
  proof (cases "- 1022 < ?r")
    case True
    then have "2 powi ?r \<le> \<bar>x\<bar>" by (rule eb(4))
    then have "(2::real) powi ?r < 2 powi k" using assms by simp
    then show ?thesis by (simp add: pow2_less_iff)
  next
    case False
    then show ?thesis using eb(2) assms(3) by simp
  qed
  let ?q = "(2::real) powi (?r - 52)"
  have q: "0 < ?q" by simp
  have "x / ?q < 2 powi (?r + 1) / ?q" using eb(1) assms(1) q by (simp add: divide_strict_right_mono)
  also have "2 powi (?r + 1) / ?q = (2::real) powi 53"
  proof -
    have "?r + 1 - (?r - 52) = 53" by simp
    then show ?thesis by (simp only: pow2_diff)
  qed
  finally have "x / ?q \<le> of_int (2 ^ 53)" by simp
  then have "rne (x / ?q) \<le> 2 ^ 53" by (rule rne_le)
  then have "(of_int (rne (x / ?q)) :: real) \<le> of_int (2 ^ 53)" by (rule of_int_le_real)
  then have "of_int (rne (x / ?q)) \<le> (2::real) powi 53" by simp
  then have "?q * of_int (rne (x / ?q)) \<le> ?q * 2 powi 53"
    using q by (rule mult_left_mono [OF _ less_imp_le])
  also have "?q * 2 powi 53 = (2::real) powi (?r + 1)"
  proof -
    have "?r - 52 + 53 = ?r + 1" by simp
    then show ?thesis by (simp only: pow2_add)
  qed
  also have "\<dots> \<le> 2 powi k" using rk by (simp only: pow2_le_iff)
  finally show ?thesis using assms(1) by (simp add: fl_def Let_def sgn_if)
qed

lemma double_below_one:
  assumes "is_double s" "0 \<le> s" "s < 1"
  shows "s \<le> 1 - 1 / 2 ^ 53"
proof -
  have b: "\<bar>s\<bar> < 2 powi 1024"
  proof -
    have "(1::real) \<le> 2 powi 1024" by simp
    then show ?thesis using assms by simp
  qed
  note eb = expo_bounds [OF b]
  let ?r = "expo s"
  show ?thesis
  proof (cases "?r \<le> - 2")
    case True
    then have "?r + 1 \<le> - 1" by simp
    then have "(2::real) powi (?r + 1) \<le> 2 powi (- 1)" by (simp only: pow2_le_iff)
    then have "s < 1 / 2" using eb(1) assms(2) by simp
    then show ?thesis by simp
  next
    case False
    then have m: "- 1022 < ?r" by simp
    have "2 powi ?r \<le> s" using eb(4) [OF m] assms(2) by simp
    then have "(2::real) powi ?r < 2 powi 0" using assms(3) by simp
    then have "?r < 0" by (simp only: pow2_less_iff)
    then have r: "?r = - 1" using False by simp
    let ?n = "rne (s / 2 powi (- 53))"
    have s: "s = 2 powi (- 53) * of_int ?n"
      using assms(1,2) r by (simp add: is_double_def fl_def Let_def sgn_if split: if_splits)
    have "of_int ?n < (2::real) ^ 53"
    proof -
      have "2 powi (- 53) * of_int ?n < (1::real)" using s assms(3) by simp
      then show ?thesis by (simp add: power_int_minus field_simps)
    qed
    then have "(of_int ?n :: real) < of_int (2 ^ 53)" by simp
    then have "?n < 2 ^ 53" by (rule of_int_less_real)
    then have "?n \<le> 2 ^ 53 - 1" by simp
    then have "(of_int ?n :: real) \<le> of_int (2 ^ 53 - 1)" by (rule of_int_le_real)
    then have "(of_int ?n :: real) \<le> 2 ^ 53 - 1" by simp
    then have "2 powi (- 53) * of_int ?n \<le> 2 powi (- 53) * ((2::real) ^ 53 - 1)"
      by (intro mult_left_mono) simp_all
    also have "\<dots> = 1 - 1 / 2 ^ 53"
      by (simp add: power_int_minus field_simps)
    finally show ?thesis using s by simp
  qed
qed

lemma fl_score_below_100:
  assumes "is_double s" "0 \<le> s" "s < 1"
  shows "fl (s * 100) < 100"
proof -
  let ?x = "s * 100"
  have s: "s \<le> 1 - 1 / 2 ^ 53" using assms by (rule double_below_one)
  have x0: "0 \<le> ?x" using assms(2) by simp
  show ?thesis
  proof (cases "?x < 64")
    case True
    then have "?x < 2 powi 6" by simp
    with x0 have "fl ?x \<le> 2 powi 6" by (rule fl_le_pow2) simp_all
    then show ?thesis by simp
  next
    case False
    then have lo: "2 powi 6 \<le> \<bar>?x\<bar>" using x0 by simp
    have hi: "\<bar>?x\<bar> < 2 powi (6 + 1)" using assms(2,3) by simp
    have f: "fl ?x = 2 powi (- 46) * of_int (rne (?x / 2 powi (- 46)))"
      using fl_eq [OF _ _ lo hi] x0 False by (simp add: sgn_if)
    have "?x / 2 powi (- 46) = ?x * 2 ^ 46" by (simp add: power_int_minus field_simps)
    also have "\<dots> \<le> (1 - 1 / 2 ^ 53) * 100 * 2 ^ 46" using s by simp
    also have "\<dots> < of_int (100 * 2 ^ 46) - 1 / 2" by simp
    finally have "rne (?x / 2 powi (- 46)) \<le> 100 * 2 ^ 46 - 1" by (rule rne_below_half)
    then have "(of_int (rne (?x / 2 powi (- 46))) :: real) \<le> of_int (100 * 2 ^ 46 - 1)"
      by (rule of_int_le_real)
    then have "(of_int (rne (?x / 2 powi (- 46))) :: real) \<le> 100 * 2 ^ 46 - 1"
      by simp
    then have "fl ?x \<le> 2 powi (- 46) * (100 * 2 ^ 46 - 1)"
      unfolding f by (intro mult_left_mono) simp_all
    also have "\<dots> < 100" by (simp add: power_int_minus field_simps)
    finally show ?thesis .
  qed
qed

lemma fl_100 [simp]: "fl 100 = 100"
proof -
  have "fl 100 = sgn 100 * (2 powi (6 - 52) * of_int (rne (\<bar>100\<bar> / 2 powi (6 - 52))))"
    by (rule fl_eq) simp_all
  then show ?thesis by (simp add: power_int_minus)
qed

lemma is_double_1: "is_double 1"
proof -
  have "fl 1 = sgn 1 * (2 powi (0 - 52) * of_int (rne (\<bar>1\<bar> / 2 powi (0 - 52))))"
    by (rule fl_eq) simp_all
  then show ?thesis by (simp add: is_double_def power_int_minus)
qed

text \<open>The doubles written \<open>0.29\<close> and \<open>0.35\<close>, and their products with 100.\<close>

lemma fl_029: "fl 0.29 = 5224175567749775 / 2 ^ 54"
proof -
  have "fl 0.29 = sgn 0.29 * (2 powi (- 2 - 52) * of_int (rne (\<bar>0.29\<bar> / 2 powi (- 2 - 52))))"
    by (rule fl_eq) simp_all
  then show ?thesis by (simp add: rne_def Let_def power_int_minus)
qed

lemma fl_029_100: "fl (fl 0.29 * 100) = 8162774324609023 / 2 ^ 48"
proof -
  let ?x = "5224175567749775 / 2 ^ 54 * (100::real)"
  have "fl ?x = sgn ?x * (2 powi (4 - 52) * of_int (rne (\<bar>?x\<bar> / 2 powi (4 - 52))))"
    by (rule fl_eq) simp_all
  then have "fl ?x = 8162774324609023 / 2 ^ 48"
    by (simp add: rne_def Let_def power_int_minus)
  then show ?thesis by (simp only: fl_029)
qed

lemma floor_029: "\<lfloor>fl (fl 0.29 * 100)\<rfloor> = 28"
  by (simp only: fl_029_100) simp

lemma is_double_029: "is_double (fl 0.29)"
proof -
  let ?x = "5224175567749775 / (2::real) ^ 54"
  have "fl ?x = sgn ?x * (2 powi (- 2 - 52) * of_int (rne (\<bar>?x\<bar> / 2 powi (- 2 - 52))))"
    by (rule fl_eq) simp_all
  then have "fl ?x = ?x"
    by (simp add: rne_def Let_def power_int_minus)
  then show ?thesis by (simp only: is_double_def fl_029)
qed

lemma fl_035: "fl 0.35 = 6305039478318694 / 2 ^ 54"
proof -
  have "fl 0.35 = sgn 0.35 * (2 powi (- 2 - 52) * of_int (rne (\<bar>0.35\<bar> / 2 powi (- 2 - 52))))"
    by (rule fl_eq) simp_all
  then show ?thesis by (simp add: rne_def Let_def power_int_minus)
qed

lemma fl_035_100: "fl (fl 0.35 * 100) = 35"
proof -
  let ?x = "6305039478318694 / 2 ^ 54 * (100::real)"
  have "fl ?x = sgn ?x * (2 powi (5 - 52) * of_int (rne (\<bar>?x\<bar> / 2 powi (5 - 52))))"
    by (rule fl_eq) simp_all
  then have "fl ?x = 35"
    by (simp add: rne_def Let_def power_int_minus)
  then show ?thesis by (simp only: fl_035)
qed

section \<open>The printed score\<close>

lemma text_of_plain [simp]: "text_of (plain s) = s"
  by (simp add: text_of_def plain_def)

lemma text_of_paint [simp]: "text_of (paint c s) = s"
  by (simp add: text_of_def paint_def)

lemma text_of_colorizeByScore [simp]: "text_of (colorizeByScore s x) = s"
  by (simp add: colorizeByScore_def)

lemma text_of_formatScore:
  "text_of (formatScore s colorize) = padStart 3 CHR '' '' (int_string \<lfloor>fl (s * 100)\<rfloor>)"
  by (simp add: formatScore_def Let_def)

lemma parseInt_padStart_nat_string:
  "parseInt (padStart k CHR '' '' (nat_string n)) = Some (int n)"
proof -
  obtain c r where s: "nat_string n = c # r"
    using nat_string_nonempty [of n] by (cases "nat_string n") auto
  have "is_digit c" using nat_string_digits [of c n] s by simp
  then have nospace: "\<not> is_space c" by (auto simp: is_digit_def is_space_def)
  have sp: "is_space CHR '' ''" by (simp add: is_space_def)
  have "dropWhile is_space (replicate j CHR '' '' @ c # r) = c # r" for j
    using nospace sp by (induction j) simp_all
  then have "dropWhile is_space (padStart k CHR '' '' (nat_string n))
             = dropWhile is_space (nat_string n)"
    using nospace by (simp add: padStart_def s)
  then have "parseInt (padStart k CHR '' '' (nat_string n)) = parseInt (nat_string n)"
    by (simp add: parseInt_def)
  then show ?thesis by (simp add: parseInt_nat_string)
qed

lemma nat_string_100: "nat_string 100 = ''100''"
  by code_simp

lemma nat_string_28: "nat_string 28 = ''28''"
  by code_simp

lemma nat_string_35: "nat_string 35 = ''35''"
  by code_simp

lemma floor_score_bounds:
  assumes "is_double s" "0 \<le> s" "s \<le> 1"
  shows "0 \<le> \<lfloor>fl (s * 100)\<rfloor>" "\<lfloor>fl (s * 100)\<rfloor> \<le> 100" "s < 1 \<Longrightarrow> \<lfloor>fl (s * 100)\<rfloor> \<le> 99"
    "\<lfloor>fl (s * 100)\<rfloor> = 100 \<longleftrightarrow> s = 1"
proof -
  have "0 \<le> fl (s * 100)" using assms(2) by (intro fl_nonneg) simp
  then show "0 \<le> \<lfloor>fl (s * 100)\<rfloor>" by simp
  show lt: "\<lfloor>fl (s * 100)\<rfloor> \<le> 99" if "s < 1"
  proof -
    have "fl (s * 100) < 100" using assms(1,2) that by (rule fl_score_below_100)
    then have "\<lfloor>fl (s * 100)\<rfloor> < 100" by (simp add: floor_less_iff)
    then show ?thesis by simp
  qed
  show "\<lfloor>fl (s * 100)\<rfloor> \<le> 100"
  proof (cases "s < 1")
    case True
    then show ?thesis using lt by simp
  next
    case False
    then have "s = 1" using assms(3) by simp
    then show ?thesis by simp
  qed
  show "\<lfloor>fl (s * 100)\<rfloor> = 100 \<longleftrightarrow> s = 1"
  proof
    assume "\<lfloor>fl (s * 100)\<rfloor> = 100"
    then have "\<not> s < 1" using lt by auto
    then show "s = 1" using assms(3) by simp
  next
    assume "s = 1" then show "\<lfloor>fl (s * 100)\<rfloor> = 100" by simp
  qed
qed

lemma oneliner_score:
  "oneliner r url =
     paint Italic url @ plain '', '' @ paint Italic ''p:'' @ plain '' '' @
     formatScore (r performanceScore) True @ drop 5 (oneliner r url)"
  by (simp add: oneliner_def plain_def paint_def formatScore_def colorizeByScore_def Let_def)

text \<open>
  Claim C10. The score in a console line (the segment after \<open>p:\<close> of \<open>oneliner\<close>,
  which is what \<open>runLighthouse\<close> prints for a result) and the score written to the
  column \<open>p\<close> of the record stream are the decimal numeral of the floor of the double
  product \<open>score * 100\<close>, padded on the left with spaces to width 3. For a double score
  between 0 and 1 the text has exactly three characters and reads back as that floor:
  the product is truncated, so every score below 1 prints as at most 99, and the text
  is \<open>100\<close> only for the score 1.
\<close>

theorem formatScore_truncates:
  "text_of (formatScore s colorize) = padStart 3 CHR '' '' (int_string \<lfloor>fl (s * 100)\<rfloor>)
   \<and> map p (csv (addToLogs r url ty w))
       = map p (csv w)
         @ [Some (padStart 3 CHR '' '' (int_string \<lfloor>fl (r performanceScore * 100)\<rfloor>))]
   \<and> oneliner r url =
        paint Italic url @ plain '', '' @ paint Italic ''p:'' @ plain '' '' @
        formatScore (r performanceScore) True @ drop 5 (oneliner r url)
   \<and> (lighthouse e (length (attempts w)) url = Resolved res \<longrightarrow>
        last (console (snd (runLighthouse e url sl w)))
          = plain (map (\<lambda>_. CHR '' '') GMEAN_PREFIX) @ oneliner (condenseReport (lhr res)) url)
   \<and> (is_double s \<and> 0 \<le> s \<and> s \<le> 1 \<longrightarrow>
        length (text_of (formatScore s colorize)) = 3
        \<and> parseInt (text_of (formatScore s colorize)) = Some \<lfloor>fl (s * 100)\<rfloor>
        \<and> (s < 1 \<longrightarrow> \<lfloor>fl (s * 100)\<rfloor> \<le> 99)
        \<and> (text_of (formatScore s colorize) = ''100'' \<longleftrightarrow> s = 1))"
proof (intro conjI impI)
  show t: "text_of (formatScore s colorize) = padStart 3 CHR '' '' (int_string \<lfloor>fl (s * 100)\<rfloor>)"
    by (rule text_of_formatScore)
  show "map p (csv (addToLogs r url ty w))
       = map p (csv w)
         @ [Some (padStart 3 CHR '' '' (int_string \<lfloor>fl (r performanceScore * 100)\<rfloor>))]"
    by (simp add: addToLogs_def metric_row_def writeRecords_def text_of_formatScore)
  show "oneliner r url =
        paint Italic url @ plain '', '' @ paint Italic ''p:'' @ plain '' '' @
        formatScore (r performanceScore) True @ drop 5 (oneliner r url)"
    by (rule oneliner_score)
  show "last (console (snd (runLighthouse e url sl w)))
          = plain (map (\<lambda>_. CHR '' '') GMEAN_PREFIX) @ oneliner (condenseReport (lhr res)) url"
    if "lighthouse e (length (attempts w)) url = Resolved res"
    using that
    by (simp add: runLighthouse_def addToLogs_def writeRecords_def console_log_def Let_def)
next
  assume b: "is_double s \<and> 0 \<le> s \<and> s \<le> 1"
  let ?n = "nat \<lfloor>fl (s * 100)\<rfloor>"
  have f0: "0 \<le> \<lfloor>fl (s * 100)\<rfloor>" and f100: "\<lfloor>fl (s * 100)\<rfloor> \<le> 100"
    using floor_score_bounds(1,2) b by auto
  have istr: "int_string \<lfloor>fl (s * 100)\<rfloor> = nat_string ?n"
    using f0 by (simp add: int_string_def)
  have t: "text_of (formatScore s colorize) = padStart 3 CHR '' '' (nat_string ?n)"
    by (simp add: text_of_formatScore istr)
  have "?n \<le> 100" using f100 by linarith
  then have "length (nat_string ?n) \<le> 3"
    by (rule length_nat_string_le3)
  then show "length (text_of (formatScore s colorize)) = 3"
    by (simp add: t padStart_def)
  show p: "parseInt (text_of (formatScore s colorize)) = Some \<lfloor>fl (s * 100)\<rfloor>"
    using f0 by (simp add: t parseInt_padStart_nat_string)
  show "\<lfloor>fl (s * 100)\<rfloor> \<le> 99" if "s < 1"
    using floor_score_bounds(3) b that by auto
  show "text_of (formatScore s colorize) = ''100'' \<longleftrightarrow> s = 1"
  proof
    assume "text_of (formatScore s colorize) = ''100''"
    then have "parseInt ''100'' = Some \<lfloor>fl (s * 100)\<rfloor>" using p by simp
    moreover have "parseInt ''100'' = Some 100"
      using parseInt_nat_string [of 100] by (simp add: nat_string_100)
    ultimately have "\<lfloor>fl (s * 100)\<rfloor> = 100" by simp
    then show "s = 1" using floor_score_bounds(4) b by auto
  next
    assume "s = 1"
    then show "text_of (formatScore s colorize) = ''100''"
      by (simp add: text_of_formatScore int_string_def nat_string_100 padStart_def)
  qed
qed

theorem formatScore_truncates_witness:
  "is_double (fl 0.29) \<and> 0 \<le> fl 0.29 \<and> fl 0.29 \<le> 1
   \<and> text_of (formatScore (fl 0.29) False) = '' 28''
   \<and> length (text_of (formatScore (fl 0.29) False)) = 3
   \<and> parseInt (text_of (formatScore (fl 0.29) False)) = Some 28
   \<and> text_of (formatScore (fl 0.35) True) = '' 35''
   \<and> text_of (formatScore 1 True) = ''100''
   \<and> lighthouse example_env (length (attempts start)) ''a.example'' = Resolved sample_results
   \<and> last (console (snd (runLighthouse example_env ''a.example'' False start)))
       = plain (map (\<lambda>_. CHR '' '') GMEAN_PREFIX) @
         oneliner (condenseReport (lhr sample_results)) ''a.example''"
proof -
  have r: "0 \<le> fl 0.29 \<and> fl 0.29 \<le> 1"
    by (simp only: fl_029) simp
  have h: "is_double (fl 0.29) \<and> 0 \<le> fl 0.29 \<and> fl 0.29 \<le> 1"
    using is_double_029 r by (rule conjI)
  note t29 = formatScore_truncates [where s = "fl 0.29" and colorize = False]
  have "text_of (formatScore (fl 0.29) False)
          = padStart 3 CHR '' '' (int_string \<lfloor>fl (fl 0.29 * 100)\<rfloor>)"
    by (rule t29 [THEN conjunct1])
  also have "\<dots> = '' 28''"
    by (simp only: floor_029) (simp add: int_string_def nat_string_28 padStart_def)
  finally have a: "text_of (formatScore (fl 0.29) False) = '' 28''" .
  have l: "length (text_of (formatScore (fl 0.29) False)) = 3
           \<and> parseInt (text_of (formatScore (fl 0.29) False)) = Some \<lfloor>fl (fl 0.29 * 100)\<rfloor>"
    using t29 [THEN conjunct2, THEN conjunct2, THEN conjunct2, THEN conjunct2, THEN mp, OF h]
    by blast
  have "text_of (formatScore (fl 0.35) True)
          = padStart 3 CHR '' '' (int_string \<lfloor>fl (fl 0.35 * 100)\<rfloor>)"
    by (rule formatScore_truncates [THEN conjunct1])
  also have "\<dots> = '' 35''"
    by (simp only: fl_035_100) (simp add: int_string_def nat_string_35 padStart_def)
  finally have b: "text_of (formatScore (fl 0.35) True) = '' 35''" .
  have "text_of (formatScore 1 True) = padStart 3 CHR '' '' (int_string \<lfloor>fl (1 * 100)\<rfloor>)"
    by (rule formatScore_truncates [THEN conjunct1])
  also have "\<dots> = ''100''"
    by (simp add: int_string_def nat_string_100 padStart_def)
  finally have c: "text_of (formatScore 1 True) = ''100''" .
  have p: "parseInt (text_of (formatScore (fl 0.29) False)) = Some 28"
    using l by (simp only: floor_029)
  have g: "lighthouse example_env (length (attempts start)) ''a.example''
             = Resolved sample_results"
    by (simp add: example_env_def)
  have o: "last (console (snd (runLighthouse example_env ''a.example'' False start)))
       = plain (map (\<lambda>_. CHR '' '') GMEAN_PREFIX) @
         oneliner (condenseReport (lhr sample_results)) ''a.example''"
    by (rule formatScore_truncates [THEN conjunct2, THEN conjunct2, THEN conjunct2,
          THEN conjunct1, THEN mp, OF g])
  show ?thesis
    using h a b c l p g o by (intro conjI) (simp_all only: simp_thms)
qed


section \<open>One attempt\<close>

lemma resolve_r: "resolve logError_scope ''r'' = Inl (ReferenceError ''r'')"
  by (simp add: resolve_def logError_scope_def module_scope_def)

lemma logError_eq:
  "logError url w = w\<lparr>csv := csv w @ [error_row url],
                       unhandled := unhandled w @ [ReferenceError ''r'']\<rparr>"
  by (simp add: logError_def resolve_r writeRecords_def)

lemma addToLogs_eq: "addToLogs r url ty w = w\<lparr>csv := csv w @ [metric_row r url ty]\<rparr>"
  by (simp add: addToLogs_def writeRecords_def)

lemma runLighthouse_Resolved:
  assumes "lighthouse e (length (attempts w)) url = Resolved res"
  shows "runLighthouse e url sl w =
     (Some (condenseReport (lhr res)),
      w\<lparr>attempts := attempts w @ [url],
        csv := csv w @ [metric_row (condenseReport (lhr res)) url ''PARTIAL''],
        console := console w @
          [plain (map (\<lambda>_. CHR '' '') GMEAN_PREFIX) @ oneliner (condenseReport (lhr res)) url],
        assets := assets w @
          (if sl then [int_string (BenchmarkIndex (artifacts res))] else [])\<rparr>)"
  using assms by (simp add: runLighthouse_def addToLogs_eq console_log_def Let_def)

lemma runLighthouse_Rejected:
  assumes "lighthouse e (length (attempts w)) url = Rejected msg"
  shows "runLighthouse e url sl w =
     (None,
      w\<lparr>attempts := attempts w @ [url],
        csv := csv w @ [error_row url],
        console := console w @ [plain msg],
        unhandled := unhandled w @ [ReferenceError ''r'']\<rparr>)"
  using assms by (simp add: runLighthouse_def logError_eq console_log_def Let_def)

lemma runLighthouse_fst:
  "fst (runLighthouse e url sl w) =
     (case lighthouse e (length (attempts w)) url of
        Resolved res \<Rightarrow> Some (condenseReport (lhr res)) | Rejected _ \<Rightarrow> None)"
  by (cases "lighthouse e (length (attempts w)) url")
     (simp_all add: runLighthouse_Resolved runLighthouse_Rejected)

lemma runLighthouse_attempts:
  "attempts (snd (runLighthouse e url sl w)) = attempts w @ [url]"
  by (cases "lighthouse e (length (attempts w)) url")
     (simp_all add: runLighthouse_Resolved runLighthouse_Rejected)

lemma runLighthouse_csv:
  "csv (snd (runLighthouse e url sl w)) =
     csv w @ [attempt_row url (lighthouse e (length (attempts w)) url)]"
  by (cases "lighthouse e (length (attempts w)) url")
     (simp_all add: runLighthouse_Resolved runLighthouse_Rejected)

lemma runLighthouse_console:
  "console (snd (runLighthouse e url sl w)) =
     console w @ [attempt_line url (lighthouse e (length (attempts w)) url)]"
  by (cases "lighthouse e (length (attempts w)) url")
     (simp_all add: runLighthouse_Resolved runLighthouse_Rejected)

lemma runLighthouse_unhandled:
  "unhandled (snd (runLighthouse e url sl w)) =
     unhandled w @ (if succeeded (lighthouse e (length (attempts w)) url) then []
                    else [ReferenceError ''r''])"
  by (cases "lighthouse e (length (attempts w)) url")
     (simp_all add: runLighthouse_Resolved runLighthouse_Rejected)

lemma runLighthouse_sched:
  "reads (snd (runLighthouse e url sl w)) = reads w"
  "running (snd (runLighthouse e url sl w)) = running w"
  "intervals (snd (runLighthouse e url sl w)) = intervals w"
  "nextInterval (snd (runLighthouse e url sl w)) = nextInterval w"
  "timerLog (snd (runLighthouse e url sl w)) = timerLog w"
  by (cases "lighthouse e (length (attempts w)) url";
      simp add: runLighthouse_Resolved runLighthouse_Rejected)+

section \<open>The batch of three attempts\<close>

lemma outcomes_from_Suc:
  "outcomes_from e url k (Suc n) = lighthouse e k url # outcomes_from e url (Suc k) n"
  by (simp add: outcomes_from_def upt_rec [of 0] map_Suc_upt [symmetric] del: upt_Suc)

lemma batch_reports_append:
  "batch_reports (xs @ ys) = batch_reports xs @ batch_reports ys"
  by (induction xs rule: batch_reports.induct) simp_all

lemma attempt_loop_eq:
  "attempt_loop e url sl n acc w = (acc', w') \<Longrightarrow>
     acc' = acc @ batch_reports (outcomes_from e url (length (attempts w)) n)
     \<and> attempts w' = attempts w @ replicate n url
     \<and> csv w' = csv w @ map (attempt_row url) (outcomes_from e url (length (attempts w)) n)
     \<and> console w' = console w @ map (attempt_line url) (outcomes_from e url (length (attempts w)) n)
     \<and> unhandled w' = unhandled w @
          replicate (length (filter (\<lambda>x. \<not> succeeded x) (outcomes_from e url (length (attempts w)) n)))
            (ReferenceError ''r'')
     \<and> reads w' = reads w \<and> running w' = running w \<and> intervals w' = intervals w
     \<and> nextInterval w' = nextInterval w \<and> timerLog w' = timerLog w"
proof (induction n arbitrary: acc w)
  case 0
  then show ?case by (simp add: outcomes_from_def)
next
  case (Suc n)
  let ?o = "lighthouse e (length (attempts w)) url"
  obtain res w1 where r: "runLighthouse e url sl w = (res, w1)"
    by (cases "runLighthouse e url sl w")
  have w1: "attempts w1 = attempts w @ [url]" "csv w1 = csv w @ [attempt_row url ?o]"
    "console w1 = console w @ [attempt_line url ?o]"
    "unhandled w1 = unhandled w @ (if succeeded ?o then [] else [ReferenceError ''r''])"
    "reads w1 = reads w" "running w1 = running w" "intervals w1 = intervals w"
    "nextInterval w1 = nextInterval w" "timerLog w1 = timerLog w"
    using runLighthouse_attempts [of e url sl w] runLighthouse_csv [of e url sl w]
      runLighthouse_console [of e url sl w] runLighthouse_unhandled [of e url sl w]
      runLighthouse_sched [of e url sl w] r by simp_all
  have res: "res = (case ?o of Resolved x \<Rightarrow> Some (condenseReport (lhr x)) | Rejected _ \<Rightarrow> None)"
    using runLighthouse_fst [of e url sl w] r by simp
  have len: "length (attempts w1) = Suc (length (attempts w))"
    by (simp add: w1)
  show ?case
  proof (cases ?o)
    case (Resolved x)
    then have "attempt_loop e url sl n (acc @ [condenseReport (lhr x)]) w1 = (acc', w')"
      using Suc.prems r res by simp
    from Suc.IH [OF this] show ?thesis
      by (simp add: outcomes_from_Suc [of e url "length (attempts w)"] w1 Resolved len
          replicate_app_Cons_same)
  next
    case (Rejected msg)
    then have "attempt_loop e url sl n acc w1 = (acc', w')"
      using Suc.prems r res by simp
    from Suc.IH [OF this] show ?thesis
      by (simp add: outcomes_from_Suc [of e url "length (attempts w)"] w1 Rejected len
          replicate_app_Cons_same)
  qed
qed

lemma batch_outcomes_from: "batch_outcomes e url w = outcomes_from e url (length (attempts w)) 3"
  by (simp add: batch_outcomes_def outcomes_from_def eval_nat_numeral)

lemma length_batch_outcomes [simp]: "length (batch_outcomes e url w) = 3"
  by (simp add: batch_outcomes_def)

lemma multipleTimes_eq:
  fixes e url sl w
  defines "outs \<equiv> batch_outcomes e url w"
  defines "w' \<equiv> multipleTimes e url sl w"
  shows "attempts w' = attempts w @ [url, url, url]"
    and "csv w' = csv w @ map (attempt_row url) outs @
           (if batch_reports outs \<noteq> [] then [metric_row (gmean (batch_reports outs)) url ''GMEAN'']
            else [])"
    and "console w' = console w @ map (attempt_line url) outs @
           (if batch_reports outs \<noteq> []
            then [paint Bold GMEAN_PREFIX @ oneliner (gmean (batch_reports outs)) url] else [])"
    and "unhandled w' = unhandled w @
           replicate (length (filter (\<lambda>x. \<not> succeeded x) outs)) (ReferenceError ''r'')"
    and "reads w' = reads w" and "running w' = running w" and "intervals w' = intervals w"
    and "nextInterval w' = nextInterval w" and "timerLog w' = timerLog w"
proof -
  obtain acc w1 where l: "attempt_loop e url sl 3 [] w = (acc, w1)"
    by (cases "attempt_loop e url sl 3 [] w")
  note f = attempt_loop_eq [OF l, folded batch_outcomes_from, folded outs_def]
  have w': "w' = (if acc \<noteq> [] then addToLogs (gmean acc) url ''GMEAN''
                    (console_log (paint Bold GMEAN_PREFIX @ oneliner (gmean acc) url) w1) else w1)"
    by (simp add: w'_def multipleTimes_def l Let_def)
  have acc: "acc = batch_reports outs" using f by simp
  show "attempts w' = attempts w @ [url, url, url]"
    using f by (simp add: w' addToLogs_eq console_log_def eval_nat_numeral)
  show "csv w' = csv w @ map (attempt_row url) outs @
           (if batch_reports outs \<noteq> [] then [metric_row (gmean (batch_reports outs)) url ''GMEAN'']
            else [])"
    using f by (simp add: w' addToLogs_eq console_log_def)
  show "console w' = console w @ map (attempt_line url) outs @
           (if batch_reports outs \<noteq> []
            then [paint Bold GMEAN_PREFIX @ oneliner (gmean (batch_reports outs)) url] else [])"
    using f by (simp add: w' addToLogs_eq console_log_def)
  show "unhandled w' = unhandled w @
           replicate (length (filter (\<lambda>x. \<not> succeeded x) outs)) (ReferenceError ''r'')"
    using f by (simp add: w' addToLogs_eq console_log_def)
  show "reads w' = reads w" "running w' = running w" "intervals w' = intervals w"
    "nextInterval w' = nextInterval w" "timerLog w' = timerLog w"
    using f by (simp_all add: w' addToLogs_eq console_log_def)
qed


section \<open>Rows written by a batch\<close>

lemma rows_of_append [simp]:
  "rows_of kind url (xs @ ys) = rows_of kind url xs @ rows_of kind url ys"
  by (simp add: rows_of_def)

lemma rows_of_Nil [simp]: "rows_of kind url [] = []"
  by (simp add: rows_of_def)

lemma site_type_rows [simp]:
  "site (metric_row r url ty) = url" "type (metric_row r url ty) = ty"
  "site (error_row url) = url" "type (error_row url) = ''Error: site not loaded''"
  by (simp_all add: metric_row_def error_row_def)

lemma error_row_no_payload:
  "p (error_row url) = None \<and> fcp (error_row url) = None \<and> fmp (error_row url) = None
   \<and> speed (error_row url) = None \<and> cpu (error_row url) = None \<and> tti (error_row url) = None
   \<and> size' (error_row url) = None"
  by (simp add: error_row_def)

lemma partial_rows_attempts:
  "length (rows_of ''PARTIAL'' url (map (attempt_row url) outs)) = length (filter succeeded outs)"
  by (induction outs rule: batch_reports.induct) (simp_all add: rows_of_def)

lemma error_rows_attempts:
  "length (rows_of ''Error: site not loaded'' url (map (attempt_row url) outs))
     = length (filter (\<lambda>x. \<not> succeeded x) outs)"
  by (induction outs rule: batch_reports.induct) (simp_all add: rows_of_def)

lemma gmean_rows_attempts: "rows_of ''GMEAN'' url (map (attempt_row url) outs) = []"
  by (induction outs rule: batch_reports.induct) (simp_all add: rows_of_def)

lemma batch_reports_empty: "batch_reports outs = [] \<longleftrightarrow> (\<forall>x \<in> set outs. \<not> succeeded x)"
  by (induction outs rule: batch_reports.induct) simp_all

lemma length_batch_reports: "length (batch_reports outs) = length (filter succeeded outs)"
  by (induction outs rule: batch_reports.induct) simp_all

lemma all_failed_rows:
  "\<forall>x \<in> set outs. \<not> succeeded x \<Longrightarrow> map (attempt_row url) outs = replicate (length outs) (error_row url)"
  by (induction outs rule: batch_reports.induct) simp_all

lemma all_failed_filter:
  "\<forall>x \<in> set outs. \<not> succeeded x \<Longrightarrow> filter (\<lambda>x. \<not> succeeded x) outs = outs"
  by simp

text \<open>
  On a host that only warns about unhandled rejections (the functions above),
  \<open>multipleTimes\<close> makes exactly three audit attempts for its URL, whatever their
  outcomes, and so does the scheduler for the URL a waiting \<open>doScript\<close> is at; it
  writes one \<open>PARTIAL\<close> row per successful attempt, and one \<open>GMEAN\<close> row if at least
  one of the three attempts succeeded and none otherwise.
\<close>

lemma batch_when_warned:
  "attempts (multipleTimes e url sl w) = attempts w @ [url, url, url]
   \<and> (running w = [i] \<longrightarrow>
        attempts (finish e 0 w)
          = attempts w @ [urlsToCheck e ! i, urlsToCheck e ! i, urlsToCheck e ! i])
   \<and> length (rows_of ''PARTIAL'' url (csv (multipleTimes e url sl w)))
       = length (rows_of ''PARTIAL'' url (csv w))
         + length (filter succeeded (batch_outcomes e url w))
   \<and> length (rows_of ''GMEAN'' url (csv (multipleTimes e url sl w)))
       = length (rows_of ''GMEAN'' url (csv w))
         + (if \<exists>x \<in> set (batch_outcomes e url w). succeeded x then 1 else 0)"
  by (simp add: multipleTimes_eq partial_rows_attempts gmean_rows_attempts batch_reports_empty
      rows_of_def [of _ _ "[_]"] finish_def doScript_def pauseScript_def console_log_def Let_def)

text \<open>
  Claim C9. In \<open>logError\<close> the identifier \<open>r\<close> of the callback has no binding, so
  evaluating it throws a \<open>ReferenceError\<close> after the error row has been written; the
  line \<open>Logged error\<close> is never printed. A failed attempt prints only the message of
  the rejection, and a batch whose attempts all fail prints only these three messages.
\<close>

theorem logError_reference_error:
  "resolve logError_scope ''r'' = Inl (ReferenceError ''r'')
   \<and> unhandled (logError url w) = unhandled w @ [ReferenceError ''r'']
   \<and> console (logError url w) = console w
   \<and> csv (logError url w) = csv w @ [error_row url]
   \<and> (lighthouse e (length (attempts w)) url = Rejected msg \<longrightarrow>
        console (snd (runLighthouse e url sl w)) = console w @ [plain msg]
        \<and> unhandled (snd (runLighthouse e url sl w)) = unhandled w @ [ReferenceError ''r''])
   \<and> ((\<forall>x \<in> set (batch_outcomes e url w). \<not> succeeded x) \<longrightarrow>
        console (multipleTimes e url sl w)
          = console w @ map (attempt_line url) (batch_outcomes e url w)
        \<and> unhandled (multipleTimes e url sl w)
          = unhandled w @ [ReferenceError ''r'', ReferenceError ''r'', ReferenceError ''r''])"
  by (simp add: resolve_r logError_eq runLighthouse_Rejected multipleTimes_eq
      batch_reports_empty eval_nat_numeral)

theorem logError_reference_error_witness:
  "console (logError ''b.example'' start) = []
   \<and> unhandled (logError ''b.example'' start) = [ReferenceError ''r'']
   \<and> console (snd (runLighthouse example_env ''b.example'' False start)) = [plain ''unreachable'']
   \<and> console (multipleTimes example_env ''b.example'' False start)
       = [plain ''unreachable'', plain ''unreachable'', plain ''unreachable'']"
  using logError_reference_error [of "''b.example''" start example_env "''unreachable''" False]
  by (simp add: batch_outcomes_def example_env_def start_def)



section \<open>The batch under either reaction of the host\<close>

lemma logError_on_eq:
  "logError_on h url w =
     (case h of Warns \<Rightarrow> Returned () | Throws \<Rightarrow> Exited,
      w\<lparr>csv := csv w @ [error_row url], unhandled := unhandled w @ [ReferenceError ''r'']\<rparr>)"
  by (simp add: logError_on_def resolve_r writeRecords_def)

lemma logError_on_Warns: "logError_on Warns url w = (Returned (), logError url w)"
  by (simp add: logError_on_eq logError_eq)

lemma runLighthouse_on_Resolved:
  assumes "lighthouse e (length (attempts w)) url = Resolved res"
  shows "runLighthouse_on h e url sl w =
           (Returned (fst (runLighthouse e url sl w)), snd (runLighthouse e url sl w))"
  using assms
  by (simp add: runLighthouse_on_def runLighthouse_def Let_def)

lemma runLighthouse_on_Rejected:
  assumes "lighthouse e (length (attempts w)) url = Rejected msg"
  shows "runLighthouse_on h e url sl w =
           (case h of Warns \<Rightarrow> Returned None | Throws \<Rightarrow> Exited, snd (runLighthouse e url sl w))"
  using assms
  by (cases h) (simp_all add: runLighthouse_on_def runLighthouse_def Let_def logError_on_eq logError_eq)

lemma made_Cons:
  "made h (x # outs) = x # (if h = Throws \<and> \<not> succeeded x then [] else made h outs)"
  by (cases h; cases x) simp_all

lemma survives_Cons:
  "survives h (x # outs) \<longleftrightarrow> (h = Warns \<or> succeeded x) \<and> survives h outs"
  by (cases h; cases x) simp_all

lemma attempt_loop_on_eq:
  "attempt_loop_on h e url sl n acc w = (c, w') \<Longrightarrow>
     c = (if survives h (outcomes_from e url (length (attempts w)) n)
          then Returned (acc @ batch_reports (outcomes_from e url (length (attempts w)) n))
          else Exited)
     \<and> attempts w' = attempts w
          @ replicate (length (made h (outcomes_from e url (length (attempts w)) n))) url
     \<and> csv w' = csv w
          @ map (attempt_row url) (made h (outcomes_from e url (length (attempts w)) n))
     \<and> console w' = console w
          @ map (attempt_line url) (made h (outcomes_from e url (length (attempts w)) n))
     \<and> unhandled w' = unhandled w @
          replicate (length (filter (\<lambda>x. \<not> succeeded x)
                               (made h (outcomes_from e url (length (attempts w)) n))))
            (ReferenceError ''r'')
     \<and> reads w' = reads w \<and> running w' = running w \<and> intervals w' = intervals w
     \<and> nextInterval w' = nextInterval w \<and> timerLog w' = timerLog w"
proof (induction n arbitrary: acc w)
  case 0
  then show ?case by (cases h) (auto simp: outcomes_from_def)
next
  case (Suc n)
  let ?o = "lighthouse e (length (attempts w)) url"
  let ?w1 = "snd (runLighthouse e url sl w)"
  have w1: "attempts ?w1 = attempts w @ [url]" "csv ?w1 = csv w @ [attempt_row url ?o]"
    "console ?w1 = console w @ [attempt_line url ?o]"
    "unhandled ?w1 = unhandled w @ (if succeeded ?o then [] else [ReferenceError ''r''])"
    "reads ?w1 = reads w" "running ?w1 = running w" "intervals ?w1 = intervals w"
    "nextInterval ?w1 = nextInterval w" "timerLog ?w1 = timerLog w"
    using runLighthouse_attempts [of e url sl w] runLighthouse_csv [of e url sl w]
      runLighthouse_console [of e url sl w] runLighthouse_unhandled [of e url sl w]
      runLighthouse_sched [of e url sl w] by simp_all
  have len: "length (attempts ?w1) = Suc (length (attempts w))"
    by (simp add: w1)
  note os = outcomes_from_Suc [of e url "length (attempts w)" n]
  show ?case
  proof (cases ?o)
    case (Resolved x)
    have "runLighthouse_on h e url sl w = (Returned (Some (condenseReport (lhr x))), ?w1)"
      by (simp add: runLighthouse_on_Resolved [OF Resolved] runLighthouse_Resolved [OF Resolved])
    then have "attempt_loop_on h e url sl n (acc @ [condenseReport (lhr x)]) ?w1 = (c, w')"
      using Suc.prems by simp
    from Suc.IH [OF this] show ?thesis
      by (simp add: os w1 Resolved len made_Cons survives_Cons replicate_app_Cons_same)
  next
    case (Rejected msg)
    show ?thesis
    proof (cases h)
      case Warns
      have "runLighthouse_on h e url sl w = (Returned None, ?w1)"
        by (simp add: runLighthouse_on_Rejected [OF Rejected] Warns)
      then have "attempt_loop_on h e url sl n acc ?w1 = (c, w')"
        using Suc.prems by simp
      from Suc.IH [OF this] show ?thesis
        by (simp add: os w1 Rejected len made_Cons survives_Cons replicate_app_Cons_same Warns)
    next
      case Throws
      have "runLighthouse_on h e url sl w = (Exited, ?w1)"
        by (simp add: runLighthouse_on_Rejected [OF Rejected] Throws)
      then have "c = Exited" "w' = ?w1"
        using Suc.prems by simp_all
      then show ?thesis
        by (simp add: os w1 Rejected Throws)
    qed
  qed
qed

lemma multipleTimes_on_eq:
  fixes h e url sl w
  defines "outs \<equiv> batch_outcomes e url w"
  defines "w' \<equiv> snd (multipleTimes_on h e url sl w)"
  shows "fst (multipleTimes_on h e url sl w) = (if survives h outs then Returned () else Exited)"
    and "attempts w' = attempts w @ replicate (length (made h outs)) url"
    and "csv w' = csv w @ map (attempt_row url) (made h outs) @
           (if survives h outs \<and> batch_reports outs \<noteq> []
            then [metric_row (gmean (batch_reports outs)) url ''GMEAN''] else [])"
    and "console w' = console w @ map (attempt_line url) (made h outs) @
           (if survives h outs \<and> batch_reports outs \<noteq> []
            then [paint Bold GMEAN_PREFIX @ oneliner (gmean (batch_reports outs)) url] else [])"
    and "unhandled w' = unhandled w @
           replicate (length (filter (\<lambda>x. \<not> succeeded x) (made h outs))) (ReferenceError ''r'')"
proof -
  obtain c w1 where l: "attempt_loop_on h e url sl 3 [] w = (c, w1)"
    by (cases "attempt_loop_on h e url sl 3 [] w")
  note f = attempt_loop_on_eq [OF l, folded batch_outcomes_from, folded outs_def]
  show "fst (multipleTimes_on h e url sl w) = (if survives h outs then Returned () else Exited)"
    using f by (simp add: multipleTimes_on_def l)
  show "attempts w' = attempts w @ replicate (length (made h outs)) url"
    using f by (simp add: w'_def multipleTimes_on_def l addToLogs_eq console_log_def Let_def)
  show "csv w' = csv w @ map (attempt_row url) (made h outs) @
           (if survives h outs \<and> batch_reports outs \<noteq> []
            then [metric_row (gmean (batch_reports outs)) url ''GMEAN''] else [])"
    using f by (simp add: w'_def multipleTimes_on_def l addToLogs_eq console_log_def Let_def)
  show "console w' = console w @ map (attempt_line url) (made h outs) @
           (if survives h outs \<and> batch_reports outs \<noteq> []
            then [paint Bold GMEAN_PREFIX @ oneliner (gmean (batch_reports outs)) url] else [])"
    using f by (simp add: w'_def multipleTimes_on_def l addToLogs_eq console_log_def Let_def)
  show "unhandled w' = unhandled w @
           replicate (length (filter (\<lambda>x. \<not> succeeded x) (made h outs))) (ReferenceError ''r'')"
    using f by (simp add: w'_def multipleTimes_on_def l addToLogs_eq console_log_def Let_def)
qed

lemma attempt_loop_on_Warns:
  "attempt_loop_on Warns e url sl n acc w =
     (Returned (fst (attempt_loop e url sl n acc w)), snd (attempt_loop e url sl n acc w))"
proof (induction n arbitrary: acc w)
  case 0
  show ?case by simp
next
  case (Suc n)
  show ?case
  proof (cases "lighthouse e (length (attempts w)) url")
    case (Resolved x)
    then show ?thesis
      by (simp add: runLighthouse_on_Resolved [OF Resolved] runLighthouse_Resolved [OF Resolved]
          Suc.IH)
  next
    case (Rejected msg)
    then show ?thesis
      by (simp add: runLighthouse_on_Rejected [OF Rejected] runLighthouse_Rejected [OF Rejected]
          Suc.IH)
  qed
qed

lemma multipleTimes_on_Warns:
  "multipleTimes_on Warns e url sl w = (Returned (), multipleTimes e url sl w)"
  by (simp add: multipleTimes_on_def multipleTimes_def attempt_loop_on_Warns
      split: prod.splits)

lemma made_nonempty: "outs \<noteq> [] \<Longrightarrow> made h outs \<noteq> []"
  by (cases outs) (simp_all add: made_Cons)

lemma length_made_Warns: "length (made Warns (batch_outcomes e url w)) = 3"
  by simp

lemma made_all_failed:
  assumes "\<forall>x \<in> set (made h outs). \<not> succeeded x" "outs \<noteq> []"
  shows "\<not> (survives h outs \<and> batch_reports outs \<noteq> [])"
    and "h = Throws \<longrightarrow> length (made h outs) = 1"
proof -
  obtain x xs where o: "outs = x # xs" using assms(2) by (cases outs) auto
  have x: "\<not> succeeded x" using assms(1) o by (simp add: made_Cons)
  show "\<not> (survives h outs \<and> batch_reports outs \<noteq> [])"
  proof (cases h)
    case Warns
    then show ?thesis using assms(1) by (simp add: batch_reports_empty)
  next
    case Throws
    then show ?thesis using x o by simp
  qed
  show "h = Throws \<longrightarrow> length (made h outs) = 1"
    using x o by (simp add: made_Cons)
qed

lemma batch_outcomes_nonempty: "batch_outcomes e url w \<noteq> []"
  by (simp add: batch_outcomes_def)

text \<open>
  Claim C1, as amended. On either host, one error row (\<open>Error: site not loaded\<close>, no
  metric column) is written per failed attempt that is made, whether or not other
  attempts for the URL succeed. When every attempt made for a URL fails, its rows are
  these error rows only: no \<open>PARTIAL\<close> row and no \<open>GMEAN\<close> row.
\<close>

theorem error_row_per_failed_attempt:
  "attempts (snd (multipleTimes_on h e url sl w))
     = attempts w @ replicate (length (made h (batch_outcomes e url w))) url
   \<and> length (rows_of ''Error: site not loaded'' url (csv (snd (multipleTimes_on h e url sl w))))
       = length (rows_of ''Error: site not loaded'' url (csv w))
         + length (filter (\<lambda>x. \<not> succeeded x) (made h (batch_outcomes e url w)))
   \<and> ((\<forall>x \<in> set (made h (batch_outcomes e url w)). \<not> succeeded x) \<longrightarrow>
        csv (snd (multipleTimes_on h e url sl w))
          = csv w @ replicate (length (made h (batch_outcomes e url w))) (error_row url)
        \<and> rows_of ''PARTIAL'' url (csv (snd (multipleTimes_on h e url sl w)))
            = rows_of ''PARTIAL'' url (csv w)
        \<and> rows_of ''GMEAN'' url (csv (snd (multipleTimes_on h e url sl w)))
            = rows_of ''GMEAN'' url (csv w))
   \<and> p (error_row url) = None \<and> fcp (error_row url) = None \<and> fmp (error_row url) = None
   \<and> speed (error_row url) = None \<and> cpu (error_row url) = None \<and> tti (error_row url) = None
   \<and> size' (error_row url) = None"
proof (intro conjI impI)
  let ?m = "made h (batch_outcomes e url w)"
  let ?w' = "snd (multipleTimes_on h e url sl w)"
  show "attempts ?w' = attempts w @ replicate (length ?m) url"
    by (rule multipleTimes_on_eq)
  show "length (rows_of ''Error: site not loaded'' url (csv ?w'))
       = length (rows_of ''Error: site not loaded'' url (csv w))
         + length (filter (\<lambda>x. \<not> succeeded x) ?m)"
    by (simp add: multipleTimes_on_eq error_rows_attempts rows_of_def [of _ _ "[_]"])
  {
    assume a: "\<forall>x \<in> set ?m. \<not> succeeded x"
    have n: "\<not> (survives h (batch_outcomes e url w)
                \<and> batch_reports (batch_outcomes e url w) \<noteq> [])"
      using a batch_outcomes_nonempty by (rule made_all_failed)
    show c: "csv ?w' = csv w @ replicate (length ?m) (error_row url)"
      using all_failed_rows [OF a, of url] n by (simp add: multipleTimes_on_eq)
    show "rows_of ''PARTIAL'' url (csv ?w') = rows_of ''PARTIAL'' url (csv w)"
      by (simp add: c rows_of_def)
    show "rows_of ''GMEAN'' url (csv ?w') = rows_of ''GMEAN'' url (csv w)"
      by (simp add: c rows_of_def)
  }
qed (simp_all add: error_row_def)

theorem error_row_per_failed_attempt_witness:
  "csv (snd (multipleTimes_on Warns example_env ''b.example'' False start))
     = [error_row ''b.example'', error_row ''b.example'', error_row ''b.example'']
   \<and> csv (snd (multipleTimes_on Throws example_env ''b.example'' False start))
     = [error_row ''b.example'']
   \<and> length (rows_of ''Error: site not loaded'' ''a.example''
        (csv (snd (multipleTimes_on Warns flaky_env ''a.example'' False start)))) = 1
   \<and> length (rows_of ''Error: site not loaded'' ''a.example''
        (csv (snd (multipleTimes_on Throws flaky_env ''a.example'' False start)))) = 1"
  using error_row_per_failed_attempt [of Warns example_env "''b.example''" False start]
    error_row_per_failed_attempt [of Throws example_env "''b.example''" False start]
    error_row_per_failed_attempt [of Warns flaky_env "''a.example''" False start]
    error_row_per_failed_attempt [of Throws flaky_env "''a.example''" False start]
  by (simp add: batch_outcomes_def example_env_def flaky_env_def start_def)

theorem one_error_row_counterexample:
  "succeeded (lighthouse flaky_env 0 ''a.example'')
   \<and> length (rows_of ''Error: site not loaded'' ''a.example''
       (csv (snd (multipleTimes_on Warns flaky_env ''a.example'' False start)))) = 1
   \<and> length (rows_of ''Error: site not loaded'' ''a.example''
       (csv (snd (multipleTimes_on Throws flaky_env ''a.example'' False start)))) = 1
   \<and> length (rows_of ''Error: site not loaded'' ''b.example''
       (csv (snd (multipleTimes_on Warns example_env ''b.example'' False start)))) = 3"
  by (simp add: multipleTimes_on_eq batch_outcomes_def example_env_def flaky_env_def start_def
      rows_of_def)

text \<open>
  Claim C5. On a host that throws on unhandled rejections the batch is cut short by the
  first failed attempt: in \<open>flaky_env\<close> the first audit of \<open>a.example\<close> succeeds and the
  second fails, the process ends there, only two attempts are made, and the rows are
  one \<open>PARTIAL\<close> row and one error row, with no \<open>GMEAN\<close> row although an attempt
  succeeded.
\<close>

theorem failed_attempt_ends_batch:
  "succeeded (lighthouse flaky_env 0 ''a.example'')
   \<and> fst (multipleTimes_on Throws flaky_env ''a.example'' False start) = Exited
   \<and> attempts (snd (multipleTimes_on Throws flaky_env ''a.example'' False start))
       = [''a.example'', ''a.example'']
   \<and> map type (csv (snd (multipleTimes_on Throws flaky_env ''a.example'' False start)))
       = [''PARTIAL'', ''Error: site not loaded'']"
  by (simp add: multipleTimes_on_eq batch_outcomes_def flaky_env_def start_def)

text \<open>
  Claim C6. On either host, when no attempt that is made succeeds, no mean is computed:
  what \<open>multipleTimes\<close> leaves behind is what its loop left behind, the loop hands over
  an empty batch if it returns at all, no \<open>GMEAN\<close> row is written and no \<open>GMEAN\<close> line
  is printed. The failures are on record: one error row and one console message per
  attempt made, of which there is at least one (three on a host that warns).
\<close>

theorem empty_batch_no_aggregate:
  assumes "batch_reports (made h (batch_outcomes e url w)) = []"
  shows "(case fst (attempt_loop_on h e url sl 3 [] w) of
            Returned multipleResults \<Rightarrow> multipleResults = [] | Exited \<Rightarrow> True)
   \<and> snd (multipleTimes_on h e url sl w) = snd (attempt_loop_on h e url sl 3 [] w)
   \<and> filter (\<lambda>r. type r = ''GMEAN'') (csv (snd (multipleTimes_on h e url sl w)))
       = filter (\<lambda>r. type r = ''GMEAN'') (csv w)
   \<and> csv (snd (multipleTimes_on h e url sl w))
       = csv w @ replicate (length (made h (batch_outcomes e url w))) (error_row url)
   \<and> console (snd (multipleTimes_on h e url sl w))
       = console w @ map (attempt_line url) (made h (batch_outcomes e url w))
   \<and> 0 < length (made h (batch_outcomes e url w))
   \<and> (h = Warns \<longrightarrow> length (made h (batch_outcomes e url w)) = 3)"
proof -
  let ?outs = "batch_outcomes e url w"
  let ?m = "made h ?outs"
  have a: "\<forall>x \<in> set ?m. \<not> succeeded x"
    using assms by (simp add: batch_reports_empty)
  have n: "\<not> (survives h ?outs \<and> batch_reports ?outs \<noteq> [])"
    using a batch_outcomes_nonempty by (rule made_all_failed)
  obtain c w1 where l: "attempt_loop_on h e url sl 3 [] w = (c, w1)"
    by (cases "attempt_loop_on h e url sl 3 [] w")
  note f = attempt_loop_on_eq [OF l, folded batch_outcomes_from]
  have 1: "(case c of Returned multipleResults \<Rightarrow> multipleResults = [] | Exited \<Rightarrow> True)"
    using f n by (cases "survives h ?outs") simp_all
  have 2: "snd (multipleTimes_on h e url sl w) = w1"
    using 1 by (cases c) (simp_all add: multipleTimes_on_def l)
  have c: "csv (snd (multipleTimes_on h e url sl w)) = csv w @ replicate (length ?m) (error_row url)"
    using all_failed_rows [OF a, of url] f by (simp add: 2)
  have 3: "filter (\<lambda>r. type r = ''GMEAN'') (csv (snd (multipleTimes_on h e url sl w)))
       = filter (\<lambda>r. type r = ''GMEAN'') (csv w)"
    by (simp add: c)
  have 4: "console (snd (multipleTimes_on h e url sl w)) = console w @ map (attempt_line url) ?m"
    using f by (simp add: 2)
  have 5: "0 < length ?m"
    using made_nonempty [OF batch_outcomes_nonempty, of h e url w] by simp
  have 6: "h = Warns \<longrightarrow> length ?m = 3" by simp
  show ?thesis using 1 2 c 3 4 5 6 by (simp add: l)
qed

theorem empty_batch_no_aggregate_witness:
  "batch_reports (made Warns (batch_outcomes example_env ''b.example'' start)) = []
   \<and> batch_reports (made Throws (batch_outcomes example_env ''b.example'' start)) = []
   \<and> csv (snd (multipleTimes_on Warns example_env ''b.example'' False start))
       = [error_row ''b.example'', error_row ''b.example'', error_row ''b.example'']
   \<and> console (snd (multipleTimes_on Warns example_env ''b.example'' False start))
       = [plain ''unreachable'', plain ''unreachable'', plain ''unreachable'']
   \<and> csv (snd (multipleTimes_on Throws example_env ''b.example'' False start))
       = [error_row ''b.example'']
   \<and> console (snd (multipleTimes_on Throws example_env ''b.example'' False start))
       = [plain ''unreachable'']"
proof -
  let ?u = "Rejected ''unreachable''"
  have m1: "made Warns (batch_outcomes example_env ''b.example'' start) = [?u, ?u, ?u]"
    by (simp add: batch_outcomes_def example_env_def)
  have m2: "made Throws (batch_outcomes example_env ''b.example'' start) = [?u]"
    by (simp add: batch_outcomes_def example_env_def)
  have s: "csv start = []" "console start = []"
    by (simp_all add: start_def)
  have h1: "batch_reports (made Warns (batch_outcomes example_env ''b.example'' start)) = []"
    by (simp only: m1) simp
  have h2: "batch_reports (made Throws (batch_outcomes example_env ''b.example'' start)) = []"
    by (simp only: m2) simp
  note t1 = empty_batch_no_aggregate [OF h1, of False, unfolded m1 s]
  note t2 = empty_batch_no_aggregate [OF h2, of False, unfolded m2 s]
  have c1: "csv (snd (multipleTimes_on Warns example_env ''b.example'' False start))
       = [error_row ''b.example'', error_row ''b.example'', error_row ''b.example'']"
    using t1 [THEN conjunct2, THEN conjunct2, THEN conjunct2, THEN conjunct1] by simp
  have c2: "console (snd (multipleTimes_on Warns example_env ''b.example'' False start))
       = [plain ''unreachable'', plain ''unreachable'', plain ''unreachable'']"
    using t1 [THEN conjunct2, THEN conjunct2, THEN conjunct2, THEN conjunct2, THEN conjunct1]
    by simp
  have c3: "csv (snd (multipleTimes_on Throws example_env ''b.example'' False start))
       = [error_row ''b.example'']"
    using t2 [THEN conjunct2, THEN conjunct2, THEN conjunct2, THEN conjunct1] by simp
  have c4: "console (snd (multipleTimes_on Throws example_env ''b.example'' False start))
       = [plain ''unreachable'']"
    using t2 [THEN conjunct2, THEN conjunct2, THEN conjunct2, THEN conjunct2, THEN conjunct1]
    by simp
  show ?thesis
    using h1 h2 c1 c2 c3 c4 by (intro conjI)
qed

section \<open>The geometric mean\<close>

lemma prod_list_pos: "\<forall>x \<in> set xs. (0::real) < x \<Longrightarrow> 0 < prod_list xs"
  by (induction xs) simp_all

lemma ln_prod_list:
  "\<forall>x \<in> set xs. (0::real) < x \<Longrightarrow> ln (prod_list xs) = sum_list (map ln xs)"
proof (induction xs)
  case Nil
  then show ?case by simp
next
  case (Cons x xs)
  then have "0 < x" "0 < prod_list xs" by (simp_all add: prod_list_pos)
  then show ?case using Cons by (simp add: ln_mult)
qed

lemma computeGmean_root:
  assumes "xs \<noteq> []" "\<forall>x \<in> set xs. 0 < x"
  shows "computeGmean xs = root (length xs) (prod_list xs)"
proof -
  have n: "0 < length xs" using assms(1) by simp
  have pos: "0 < prod_list xs" using assms(2) by (rule prod_list_pos)
  have "root (length xs) (prod_list xs) = prod_list xs powr (1 / real (length xs))"
    using n pos by (simp add: root_powr_inverse)
  also have "\<dots> = exp (ln (prod_list xs) / real (length xs))"
    using pos by (simp add: powr_def)
  also have "\<dots> = computeGmean xs"
    using assms(2) by (simp add: computeGmean_def ln_prod_list)
  finally show ?thesis by simp
qed

lemma computeGmean_perm:
  assumes "mset xs = mset ys"
  shows "computeGmean xs = computeGmean ys"
proof -
  have "image_mset ln (mset xs) = image_mset ln (mset ys)"
    using assms by (rule arg_cong)
  then have "mset (map ln xs) = mset (map ln ys)"
    by (simp only: mset_map)
  then have "sum_mset (mset (map ln xs)) = sum_mset (mset (map ln ys))"
    by (rule arg_cong)
  then have "sum_list (map ln xs) = sum_list (map ln ys)"
    by (simp only: sum_mset_sum_list)
  moreover have "length xs = length ys"
    using assms by (rule mset_eq_length)
  ultimately show ?thesis by (simp add: computeGmean_def)
qed


text \<open>
  Claim C2. For a non-empty batch whose values of a field are positive, the field of the
  aggregate is \<open>exp (mean (ln x))\<close> of that field's values, which is the \<open>n\<close>-th root of
  their product. The field of the aggregate is determined by that field's values alone
  (two batches that agree on the field have the same mean in it, whatever their other
  fields), and it does not change when the batch is reordered. The aggregate of the
  reports of the successful attempts is what \<open>multipleTimes\<close> writes as the \<open>GMEAN\<close>
  row, the last row of its batch.
\<close>

theorem gmean_geometric_mean:
  assumes "rs \<noteq> []" and "\<forall>r \<in> set rs. 0 < r m"
  shows "gmean rs m = exp (sum_list (map (\<lambda>r. ln (r m)) rs) / real (length rs))
   \<and> gmean rs m = root (length rs) (prod_list (map (\<lambda>r. r m) rs))
   \<and> (map (\<lambda>r. r m) rs' = map (\<lambda>r. r m) rs \<longrightarrow> gmean rs' m = gmean rs m)
   \<and> (mset rs' = mset rs \<longrightarrow> gmean rs' m = gmean rs m)
   \<and> (batch_reports (batch_outcomes e url w) = rs \<longrightarrow>
        last (csv (multipleTimes e url sl w)) = metric_row (gmean rs) url ''GMEAN'')"
proof (intro conjI impI)
  show "last (csv (multipleTimes e url sl w)) = metric_row (gmean rs) url ''GMEAN''"
    if "batch_reports (batch_outcomes e url w) = rs"
    using that assms(1) by (simp add: multipleTimes_eq)
  show "gmean rs m = exp (sum_list (map (\<lambda>r. ln (r m)) rs) / real (length rs))"
    by (simp add: gmean_def computeGmean_def comp_def)
  show "gmean rs m = root (length rs) (prod_list (map (\<lambda>r. r m) rs))"
    using computeGmean_root [of "map (\<lambda>r. r m) rs"] assms by (simp add: gmean_def)
  show "gmean rs' m = gmean rs m" if "map (\<lambda>r. r m) rs' = map (\<lambda>r. r m) rs"
    using that by (simp add: gmean_def)
  show "gmean rs' m = gmean rs m" if "mset rs' = mset rs"
  proof -
    have "image_mset (\<lambda>r. r m) (mset rs') = image_mset (\<lambda>r. r m) (mset rs)"
      using that by (rule arg_cong)
    then have "mset (map (\<lambda>r. r m) rs') = mset (map (\<lambda>r. r m) rs)"
      by (simp only: mset_map)
    then have "computeGmean (map (\<lambda>r. r m) rs') = computeGmean (map (\<lambda>r. r m) rs)"
      by (rule computeGmean_perm)
    then show ?thesis
      by (simp add: gmean_def)
  qed
qed

theorem gmean_geometric_mean_witness:
  "gmean [constant_report 2, constant_report 8] performanceScore = 4
   \<and> gmean [constant_report 8, constant_report 2] performanceScore = 4
   \<and> last (csv (multipleTimes example_env ''a.example'' False start))
       = metric_row (gmean (replicate 3 (condenseReport (lhr sample_results))))
           ''a.example'' ''GMEAN''"
proof -
  let ?rs = "[constant_report 2, constant_report 8]"
  let ?rs' = "[constant_report 8, constant_report 2]"
  have r: "root (Suc (Suc 0)) (16::real) = 4"
    using real_root_power_cancel [of "Suc (Suc 0)" "4::real"] by simp
  have h1: "?rs \<noteq> []" by simp
  have h2: "\<forall>r \<in> set ?rs. 0 < r performanceScore"
    by (simp add: constant_report_def)
  note g = gmean_geometric_mean [OF h1 h2, where rs' = ?rs']
  have a: "gmean ?rs performanceScore
             = root (length ?rs) (prod_list (map (\<lambda>r. r performanceScore) ?rs))"
    by (rule g [THEN conjunct2, THEN conjunct1])
  have "mset ?rs' = mset ?rs" by simp
  then have b: "gmean ?rs' performanceScore = gmean ?rs performanceScore"
    by (rule g [THEN conjunct2, THEN conjunct2, THEN conjunct2, THEN conjunct1, THEN mp])
  have c: "gmean ?rs performanceScore = 4"
    unfolding a by (simp add: constant_report_def r)
  let ?cs = "replicate 3 (condenseReport (lhr sample_results))"
  have k1: "?cs \<noteq> []" by simp
  have k2: "\<forall>r \<in> set ?cs. 0 < r performanceScore"
    by (simp add: condenseReport_def sample_results_def)
  have k3: "batch_reports (batch_outcomes example_env ''a.example'' start) = ?cs"
    by (simp add: batch_outcomes_def example_env_def eval_nat_numeral)
  have d: "last (csv (multipleTimes example_env ''a.example'' False start))
             = metric_row (gmean ?cs) ''a.example'' ''GMEAN''"
    using k3
    by (rule gmean_geometric_mean [OF k1 k2, THEN conjunct2, THEN conjunct2, THEN conjunct2,
          THEN conjunct2, THEN mp])
  show ?thesis using b c d by simp
qed





section \<open>The scheduler\<close>

lemma cleared_ids_append [simp]: "cleared_ids (xs @ ys) = cleared_ids xs @ cleared_ids ys"
  by (induction xs rule: cleared_ids.induct) simp_all

lemma resumed_ids_append [simp]: "resumed_ids (xs @ ys) = resumed_ids xs @ resumed_ids ys"
  by (induction xs rule: resumed_ids.induct) simp_all

lemma audited_Suc: "audited e (Suc c) = audited e c @ replicate 3 (urlsToCheck e ! c)"
  by (simp add: audited_def)

lemma audited_0 [simp]: "audited e 0 = []"
  by (simp add: audited_def)

lemma doScript_end: "\<not> i < length (urlsToCheck e) \<Longrightarrow> doScript e i w = w"
  by (simp add: doScript_def)

lemma doScript_open:
  "i < length (urlsToCheck e) \<Longrightarrow> checkTime (now e (reads w)) \<Longrightarrow>
   doScript e i w =
     w\<lparr>reads := Suc (reads w),
       console := console w @ [plain ''It's a great time to run the script''],
       running := running w @ [i]\<rparr>"
  by (simp add: doScript_def console_log_def Let_def)

lemma doScript_closed:
  "i < length (urlsToCheck e) \<Longrightarrow> \<not> checkTime (now e (reads w)) \<Longrightarrow>
   doScript e i w =
     w\<lparr>reads := Suc (reads w),
       console := console w @ [plain ''Terrible time to run the script''],
       intervals := intervals w @ [(nextInterval w, i)],
       nextInterval := Suc (nextInterval w),
       timerLog := timerLog w @ [SetInterval (nextInterval w) i]\<rparr>"
  by (simp add: doScript_def pauseScript_def console_log_def Let_def)

lemma doScript_attempts [simp]: "attempts (doScript e i w) = attempts w"
  by (simp add: doScript_def pauseScript_def console_log_def Let_def)

lemma doScript_csv [simp]: "csv (doScript e i w) = csv w"
  by (simp add: doScript_def pauseScript_def console_log_def Let_def)

text \<open>Entering the loop at index \<open>i\<close> from a state with no waiting call and no timer.\<close>

lemma inv_doScript:
  assumes "running w = []" "intervals w = []" "i \<le> length (urlsToCheck e)"
    and "attempts w = audited e i"
    and "\<forall>t \<in> set (cleared_ids (timerLog w)). t < nextInterval w"
    and "distinct (cleared_ids (timerLog w))"
    and "resumed_ids (timerLog w) = cleared_ids (timerLog w)"
  shows "inv e (doScript e i w)"
proof (cases "i < length (urlsToCheck e)")
  case False
  then have "i = length (urlsToCheck e)" using assms(3) by simp
  then show ?thesis
    using assms by (simp add: doScript_end inv_def cursor_def)
next
  case True
  show ?thesis
  proof (cases "checkTime (now e (reads w))")
    case True
    then show ?thesis
      using assms \<open>i < length (urlsToCheck e)\<close>
      by (simp add: doScript_open inv_def cursor_def)
  next
    case False
    then show ?thesis
      using assms \<open>i < length (urlsToCheck e)\<close>
      by (auto simp: doScript_closed inv_def cursor_def less_Suc_eq)
  qed
qed

lemma inv_main: "inv e (main e)"
  unfolding main_def by (rule inv_doScript) (simp_all add: start_def)

lemma finish_noop: "\<not> k < length (running w) \<Longrightarrow> finish e k w = w"
  by (simp add: finish_def)

lemma finish_single:
  "running w = [i] \<Longrightarrow>
   finish e 0 w =
     doScript e (Suc i) (multipleTimes e (urlsToCheck e ! i) (cmd_storeLogs e) (w\<lparr>running := []\<rparr>))"
  by (simp add: finish_def Let_def)

lemma tick_noop: "map_of (intervals w) t = None \<Longrightarrow> tick e t w = w"
  by (simp add: tick_def)

lemma tick_closed:
  "map_of (intervals w) t = Some q \<Longrightarrow> \<not> checkTime (now e (reads w)) \<Longrightarrow>
   tick e t w = w\<lparr>reads := Suc (reads w)\<rparr>"
  by (simp add: tick_def Let_def)

lemma tick_open:
  "map_of (intervals w) t = Some q \<Longrightarrow> checkTime (now e (reads w)) \<Longrightarrow>
   tick e t w =
     doScript e q
       (w\<lparr>reads := Suc (reads w),
          intervals := filter (\<lambda>(t', _). t' \<noteq> t) (intervals w),
          console := console w @ [plain (''script resumed at:  '' @ nat_string q)],
          timerLog := timerLog w @ [ClearInterval t, Resume t q]\<rparr>)"
  by (simp add: tick_def clearInterval_def console_log_def Let_def)

lemma inv_finish:
  assumes "inv e w"
  shows "inv e (finish e k w)"
proof (cases "k < length (running w)")
  case False
  then show ?thesis using assms by (simp add: finish_noop)
next
  case True
  then obtain i where r: "running w = [i]" and k: "k = 0" and iv: "intervals w = []"
    using assms by (cases "running w") (auto simp: inv_def)
  let ?w1 = "multipleTimes e (urlsToCheck e ! i) (cmd_storeLogs e) (w\<lparr>running := []\<rparr>)"
  have i: "i < length (urlsToCheck e)" and a: "attempts w = audited e i"
    using assms r by (simp_all add: inv_def cursor_def)
  have "inv e (doScript e (Suc i) ?w1)"
  proof (rule inv_doScript)
    show "attempts ?w1 = audited e (Suc i)"
      by (simp add: multipleTimes_eq a audited_Suc eval_nat_numeral)
  qed (use assms r iv i in \<open>simp_all add: multipleTimes_eq inv_def\<close>)
  then show ?thesis by (simp add: k finish_single [OF r])
qed

lemma inv_tick:
  assumes "inv e w"
  shows "inv e (tick e t w)"
proof (cases "map_of (intervals w) t")
  case None
  then show ?thesis using assms by (simp add: tick_noop)
next
  case (Some q)
  then have "(t, q) \<in> set (intervals w)" by (rule map_of_SomeD)
  then have iv: "intervals w = [(t, q)]" and r: "running w = []"
    using assms by (cases "intervals w"; auto simp: inv_def)+
  have q: "q < length (urlsToCheck e)" and t: "t < nextInterval w"
    and tc: "t \<notin> set (cleared_ids (timerLog w))" and a: "attempts w = audited e q"
    using assms iv r by (simp_all add: inv_def cursor_def)
  show ?thesis
  proof (cases "checkTime (now e (reads w))")
    case False
    then show ?thesis
      using assms iv r by (simp add: tick_closed [OF Some] inv_def cursor_def)
  next
    case True
    have "inv e (doScript e q
       (w\<lparr>reads := Suc (reads w),
          intervals := filter (\<lambda>(t', _). t' \<noteq> t) (intervals w),
          console := console w @ [plain (''script resumed at:  '' @ nat_string q)],
          timerLog := timerLog w @ [ClearInterval t, Resume t q]\<rparr>))"
      by (rule inv_doScript) (use assms iv r q t tc a in \<open>simp_all add: inv_def\<close>)
    then show ?thesis by (simp add: tick_open [OF Some True])
  qed
qed

lemma inv_step: "inv e w \<Longrightarrow> inv e (step e w ev)"
  by (cases ev) (simp_all add: inv_tick inv_finish)

lemma inv_run: "inv e w \<Longrightarrow> inv e (run e evs w)"
  unfolding run_def by (induction evs arbitrary: w) (simp_all add: inv_step)

lemma inv_reachable: "inv e (run e evs (main e))"
  by (rule inv_run) (rule inv_main)


section \<open>Runs of the scheduler\<close>

lemma run_Nil [simp]: "run e [] w = w"
  by (simp add: run_def)

lemma run_Cons [simp]: "run e (ev # evs) w = run e evs (step e w ev)"
  by (simp add: run_def)

lemma run_append: "run e (evs @ evs') w = run e evs' (run e evs w)"
  by (simp add: run_def)

lemma timerLog_doScript: "\<exists>xs. timerLog (doScript e i w) = timerLog w @ xs"
  by (simp add: doScript_def pauseScript_def console_log_def Let_def)

lemma timerLog_step: "\<exists>xs. timerLog (step e w ev) = timerLog w @ xs"
proof (cases ev)
  case (Tick t)
  show ?thesis
  proof (cases "map_of (intervals w) t")
    case None
    then show ?thesis using Tick by (simp add: tick_noop)
  next
    case (Some q)
    show ?thesis
    proof (cases "checkTime (now e (reads w))")
      case True
      let ?w1 = "w\<lparr>reads := Suc (reads w),
          intervals := filter (\<lambda>(t', _). t' \<noteq> t) (intervals w),
          console := console w @ [plain (''script resumed at:  '' @ nat_string q)],
          timerLog := timerLog w @ [ClearInterval t, Resume t q]\<rparr>"
      obtain xs where "timerLog (doScript e q ?w1) = timerLog ?w1 @ xs"
        using timerLog_doScript by blast
      then have "timerLog (tick e t w) = timerLog w @ ([ClearInterval t, Resume t q] @ xs)"
        by (simp add: tick_open [OF Some True])
      then show ?thesis using Tick by (simp del: append.simps)
    next
      case False
      then show ?thesis using Tick by (simp add: tick_closed [OF Some])
    qed
  qed
next
  case (Finish k)
  show ?thesis
  proof (cases "k < length (running w)")
    case True
    let ?w1 = "w\<lparr>running := take k (running w) @ drop (Suc k) (running w)\<rparr>"
    let ?w2 = "multipleTimes e (urlsToCheck e ! (running w ! k)) (cmd_storeLogs e) ?w1"
    obtain xs where "timerLog (doScript e (Suc (running w ! k)) ?w2) = timerLog ?w2 @ xs"
      using timerLog_doScript by blast
    then have "timerLog (finish e k w) = timerLog w @ xs"
      using True by (simp add: finish_def Let_def multipleTimes_eq)
    then show ?thesis using Finish by simp
  next
    case False
    then show ?thesis using Finish by (simp add: finish_noop)
  qed
qed

lemma timerLog_run: "\<exists>xs. timerLog (run e evs w) = timerLog w @ xs"
proof (induction evs arbitrary: w)
  case Nil
  show ?case by simp
next
  case (Cons ev evs)
  obtain xs where "timerLog (step e w ev) = timerLog w @ xs"
    using timerLog_step by blast
  moreover obtain ys where "timerLog (run e evs (step e w ev)) = timerLog (step e w ev) @ ys"
    using Cons.IH by blast
  ultimately show ?case by simp
qed

lemma inactive_after_clear:
  assumes "inv e w" "t \<in> set (cleared_ids (timerLog w))"
  shows "map_of (intervals w) t = None"
proof (cases "map_of (intervals w) t")
  case None
  then show ?thesis .
next
  case (Some q)
  then have "(t, q) \<in> set (intervals w)" by (rule map_of_SomeD)
  then show ?thesis using assms by (auto simp: inv_def)
qed

text \<open>
  Claim C8. In every world the script can reach, under every order of timer callbacks
  and completed batches, a timer has been cancelled at most once and its callback has
  resumed the script at most once, and the resumptions are exactly the cancellations.
  A cancelled timer is not active in this world nor in any later one, so its callback
  is never invoked again. When the callback of an active timer finds the window open,
  it cancels the timer first and resumes second.
\<close>

theorem resume_fires_at_most_once:
  assumes "w = run e evs (main e)"
  shows "count_list (cleared_ids (timerLog w)) t \<le> 1
    \<and> count_list (resumed_ids (timerLog w)) t \<le> 1
    \<and> resumed_ids (timerLog w) = cleared_ids (timerLog w)
    \<and> (t \<in> set (cleared_ids (timerLog w)) \<longrightarrow>
         map_of (intervals (run e evs' w)) t = None
         \<and> tick e t (run e evs' w) = run e evs' w)
    \<and> (map_of (intervals w) t = Some q \<and> checkTime (now e (reads w)) \<longrightarrow>
         take 2 (drop (length (timerLog w)) (timerLog (tick e t w)))
           = [ClearInterval t, Resume t q]
         \<and> map_of (intervals (tick e t w)) t = None
         \<and> t \<in> set (cleared_ids (timerLog (tick e t w))))"
proof (intro conjI impI)
  have i: "inv e w" unfolding assms by (rule inv_reachable)
  then have d: "distinct (cleared_ids (timerLog w))"
    and rc: "resumed_ids (timerLog w) = cleared_ids (timerLog w)"
    by (simp_all add: inv_def)
  have "count (mset (cleared_ids (timerLog w))) t \<le> 1"
    using d by (simp add: distinct_count_atmost_1)
  then show "count_list (cleared_ids (timerLog w)) t \<le> 1"
    by (simp only: count_mset)
  then show "count_list (resumed_ids (timerLog w)) t \<le> 1"
    by (simp add: rc)
  show "resumed_ids (timerLog w) = cleared_ids (timerLog w)"
    by (rule rc)
  {
    assume c: "t \<in> set (cleared_ids (timerLog w))"
    have i': "inv e (run e evs' w)" using i by (rule inv_run)
    obtain xs where "timerLog (run e evs' w) = timerLog w @ xs"
      using timerLog_run by blast
    then have "t \<in> set (cleared_ids (timerLog (run e evs' w)))"
      using c by simp
    with i' show n: "map_of (intervals (run e evs' w)) t = None"
      by (rule inactive_after_clear)
    then show "tick e t (run e evs' w) = run e evs' w"
      by (rule tick_noop)
  }
  {
    assume a: "map_of (intervals w) t = Some q \<and> checkTime (now e (reads w))"
    then have s: "map_of (intervals w) t = Some q" and o: "checkTime (now e (reads w))"
      by simp_all
    let ?w1 = "w\<lparr>reads := Suc (reads w),
          intervals := filter (\<lambda>(t', _). t' \<noteq> t) (intervals w),
          console := console w @ [plain (''script resumed at:  '' @ nat_string q)],
          timerLog := timerLog w @ [ClearInterval t, Resume t q]\<rparr>"
    have tk: "tick e t w = doScript e q ?w1"
      by (rule tick_open [OF s o])
    obtain xs where xs: "timerLog (doScript e q ?w1) = timerLog ?w1 @ xs"
      using timerLog_doScript by blast
    show "take 2 (drop (length (timerLog w)) (timerLog (tick e t w)))
           = [ClearInterval t, Resume t q]"
      unfolding tk xs by simp
    show c: "t \<in> set (cleared_ids (timerLog (tick e t w)))"
      unfolding tk xs by simp
    have "inv e (tick e t w)" using i by (rule inv_tick)
    then show "map_of (intervals (tick e t w)) t = None"
      using c by (rule inactive_after_clear)
  }
qed

lemma checkTime_night [simp]:
  "checkTime (now night_env k) \<longleftrightarrow> k \<noteq> 1 \<and> k \<noteq> 2"
  by (simp add: night_env_def checkTime_eq closed_hours_def open_hours_def)

lemma urls_night [simp]: "urlsToCheck night_env = [''a.example'', ''b.example'']"
  by (simp add: night_env_def)

lemma main_night:
  "main night_env = start\<lparr>reads := 1,
      console := [plain ''It's a great time to run the script''], running := [0]\<rparr>"
  by (simp add: main_def doScript_open start_def)



lemma suspended_world_fields:
  "intervals suspended_world = [(0, 1)]" "running suspended_world = []"
  "reads suspended_world = 3" "timerLog suspended_world = [SetInterval 0 1]"
  "attempts suspended_world = [''a.example'', ''a.example'', ''a.example'']"
  by (simp_all add: suspended_world_def main_night finish_def doScript_def pauseScript_def
      console_log_def tick_def multipleTimes_eq Let_def start_def)

lemma resumed_world_fields:
  "intervals resumed_world = []" "running resumed_world = [1]"
  "reads resumed_world = 5"
  "timerLog resumed_world = [SetInterval 0 1, ClearInterval 0, Resume 0 1]"
  "attempts resumed_world = [''a.example'', ''a.example'', ''a.example'']"
  by (simp_all add: resumed_world_def main_night finish_def doScript_def pauseScript_def
      console_log_def tick_def clearInterval_def multipleTimes_eq Let_def start_def)

theorem resume_fires_at_most_once_witness:
  "map_of (intervals suspended_world) 0 = Some 1
   \<and> checkTime (now night_env (reads suspended_world))
   \<and> take 2 (drop (length (timerLog suspended_world))
        (timerLog (tick night_env 0 suspended_world))) = [ClearInterval 0, Resume 0 1]
   \<and> map_of (intervals (tick night_env 0 suspended_world)) 0 = None
   \<and> 0 \<in> set (cleared_ids (timerLog resumed_world))
   \<and> count_list (resumed_ids (timerLog resumed_world)) 0 \<le> 1
   \<and> tick night_env 0 (run night_env [Tick 0, Finish 0] resumed_world)
       = run night_env [Tick 0, Finish 0] resumed_world"
proof -
  have h: "map_of (intervals suspended_world) 0 = Some 1
           \<and> checkTime (now night_env (reads suspended_world))"
    by (simp add: suspended_world_fields)
  have c: "0 \<in> set (cleared_ids (timerLog resumed_world))"
    by (simp add: resumed_world_fields)
  show ?thesis
    using h c
      resume_fires_at_most_once [OF suspended_world_def, of 0 "[]" 1]
      resume_fires_at_most_once [OF resumed_world_def, of 0 "[Tick 0, Finish 0]" 1]
    by blast
qed

text \<open>
  Claim C4. In every world the script can reach:
  \<^item> when the batch of URL \<open>j\<close> completes and the clock read for URL \<open>j + 1\<close> is
    outside the window, a timer with \<open>pausePoint = j + 1\<close> is started, no \<open>doScript\<close>
    is left waiting, and the audits made are those of the URLs up to \<open>j\<close>: none for
    URL \<open>j + 1\<close>;
  \<^item> while a timer with \<open>pausePoint = i\<close> is active, no \<open>doScript\<close> is waiting and
    the audits made are exactly those of the URLs before \<open>i\<close>, three each, in list
    order; a callback that finds the window closed changes nothing but the clock count;
    a callback that finds it open (and \<open>doScript\<close> finds it open too) leaves
    \<open>doScript\<close> waiting for the batch of URL \<open>i\<close> with no audit made in between, and
    that batch is the next one audited;
  \<^item> while \<open>doScript\<close> waits for the batch of URL \<open>i\<close>, no timer is active and the
    audits made are exactly those of the URLs before \<open>i\<close>;
  \<^item> when the very first reading of the clock is outside the window, the script starts
    suspended at index 0 with no audit made.
  So no URL is skipped and none is audited again.
\<close>

theorem suspend_and_resume_at_same_index:
  assumes "w = run e evs (main e)"
  shows
    "(running w = [j] \<and> Suc j < length (urlsToCheck e) \<and> \<not> checkTime (now e (reads w)) \<longrightarrow>
        running (finish e 0 w) = [] \<and> intervals (finish e 0 w) = [(nextInterval w, Suc j)]
        \<and> attempts (finish e 0 w) = audited e (Suc j))
     \<and> (intervals w = [(t, i)] \<longrightarrow>
          running w = [] \<and> i < length (urlsToCheck e) \<and> attempts w = audited e i
          \<and> (\<not> checkTime (now e (reads w)) \<longrightarrow> tick e t w = w\<lparr>reads := Suc (reads w)\<rparr>)
          \<and> (checkTime (now e (reads w)) \<and> checkTime (now e (Suc (reads w))) \<longrightarrow>
               running (tick e t w) = [i] \<and> intervals (tick e t w) = []
               \<and> attempts (tick e t w) = audited e i
               \<and> attempts (finish e 0 (tick e t w)) = audited e (Suc i)))
     \<and> (running w = [i] \<longrightarrow>
          intervals w = [] \<and> i < length (urlsToCheck e) \<and> attempts w = audited e i
          \<and> attempts (finish e 0 w) = audited e (Suc i))
     \<and> (urlsToCheck e \<noteq> [] \<and> \<not> checkTime (now e 0) \<longrightarrow>
          running (main e) = [] \<and> intervals (main e) = [(0, 0)] \<and> attempts (main e) = [])"
proof (intro conjI impI)
  have inv: "inv e w" unfolding assms by (rule inv_reachable)
  {
    assume "urlsToCheck e \<noteq> [] \<and> \<not> checkTime (now e 0)"
    then have m: "main e = start\<lparr>reads := Suc 0,
        console := console start @ [plain ''Terrible time to run the script''],
        intervals := intervals start @ [(nextInterval start, 0)],
        nextInterval := Suc (nextInterval start),
        timerLog := timerLog start @ [SetInterval (nextInterval start) 0]\<rparr>"
      unfolding main_def by (subst doScript_closed) (simp_all add: start_def)
    show "running (main e) = []" "intervals (main e) = [(0, 0)]" "attempts (main e) = []"
      unfolding m by (simp_all add: start_def)
  }
  {
    assume a: "running w = [j] \<and> Suc j < length (urlsToCheck e) \<and> \<not> checkTime (now e (reads w))"
    then have r: "running w = [j]" and j: "Suc j < length (urlsToCheck e)"
      and c: "\<not> checkTime (now e (reads w))" by simp_all
    have iv: "intervals w = []" and at: "attempts w = audited e j"
      using inv r by (simp_all add: inv_def cursor_def)
    let ?w1 = "multipleTimes e (urlsToCheck e ! j) (cmd_storeLogs e) (w\<lparr>running := []\<rparr>)"
    have c1: "\<not> checkTime (now e (reads ?w1))"
      using c by (simp add: multipleTimes_eq)
    have f: "finish e 0 w = doScript e (Suc j) ?w1"
      by (rule finish_single [OF r])
    show "running (finish e 0 w) = []"
      unfolding f doScript_closed [OF j c1] by (simp add: multipleTimes_eq)
    show "intervals (finish e 0 w) = [(nextInterval w, Suc j)]"
      unfolding f doScript_closed [OF j c1] by (simp add: multipleTimes_eq iv)
    show "attempts (finish e 0 w) = audited e (Suc j)"
      unfolding f by (simp add: multipleTimes_eq at audited_Suc eval_nat_numeral)
  }
  {
    assume iv: "intervals w = [(t, i)]"
    show r: "running w = []" using inv iv by (simp add: inv_def)
    show i: "i < length (urlsToCheck e)" using inv iv by (simp add: inv_def)
    show at: "attempts w = audited e i" using inv iv r by (simp add: inv_def cursor_def)
    have m: "map_of (intervals w) t = Some i" by (simp add: iv)
    show "tick e t w = w\<lparr>reads := Suc (reads w)\<rparr>" if "\<not> checkTime (now e (reads w))"
      using m that by (rule tick_closed)
    {
      assume o: "checkTime (now e (reads w)) \<and> checkTime (now e (Suc (reads w)))"
      let ?w1 = "w\<lparr>reads := Suc (reads w),
          intervals := filter (\<lambda>(t', _). t' \<noteq> t) (intervals w),
          console := console w @ [plain (''script resumed at:  '' @ nat_string i)],
          timerLog := timerLog w @ [ClearInterval t, Resume t i]\<rparr>"
      have tk: "tick e t w = doScript e i ?w1"
        using m o by (simp add: tick_open)
      have o1: "checkTime (now e (reads ?w1))" using o by simp
      note d = doScript_open [OF i o1]
      show rt: "running (tick e t w) = [i]"
        unfolding tk d by (simp add: r)
      show "intervals (tick e t w) = []"
        unfolding tk d by (simp add: iv)
      show att: "attempts (tick e t w) = audited e i"
        unfolding tk by (simp add: at)
      show "attempts (finish e 0 (tick e t w)) = audited e (Suc i)"
        unfolding finish_single [OF rt]
        by (simp add: multipleTimes_eq att audited_Suc eval_nat_numeral)
    }
  }
  {
    assume r: "running w = [i]"
    show "intervals w = []" using inv r by (simp add: inv_def)
    show "i < length (urlsToCheck e)" using inv r by (simp add: inv_def)
    show at: "attempts w = audited e i" using inv r by (simp add: inv_def cursor_def)
    show "attempts (finish e 0 w) = audited e (Suc i)"
      unfolding finish_single [OF r]
      by (simp add: multipleTimes_eq at audited_Suc eval_nat_numeral)
  }
qed


lemma audited_night:
  "audited night_env (Suc 0) = [''a.example'', ''a.example'', ''a.example'']"
  "audited night_env (Suc (Suc 0))
     = [''a.example'', ''a.example'', ''a.example'', ''b.example'', ''b.example'', ''b.example'']"
  by (simp_all add: audited_def eval_nat_numeral)

theorem suspend_and_resume_at_same_index_witness:
  "running (main night_env) = [0]
   \<and> \<not> checkTime (now night_env (reads (main night_env)))
   \<and> running (finish night_env 0 (main night_env)) = []
   \<and> intervals (finish night_env 0 (main night_env)) = [(0, 1)]
   \<and> attempts (finish night_env 0 (main night_env))
       = [''a.example'', ''a.example'', ''a.example'']
   \<and> intervals suspended_world = [(0, 1)]
   \<and> checkTime (now night_env (reads suspended_world))
   \<and> checkTime (now night_env (Suc (reads suspended_world)))
   \<and> running (tick night_env 0 suspended_world) = [1]
   \<and> intervals (tick night_env 0 suspended_world) = []
   \<and> attempts (tick night_env 0 suspended_world) = [''a.example'', ''a.example'', ''a.example'']
   \<and> attempts (finish night_env 0 (tick night_env 0 suspended_world))
       = [''a.example'', ''a.example'', ''a.example'', ''b.example'', ''b.example'', ''b.example'']"
proof -
  have m: "main night_env = run night_env [] (main night_env)" by simp
  have h1: "running (main night_env) = [0] \<and> Suc 0 < length (urlsToCheck night_env)
            \<and> \<not> checkTime (now night_env (reads (main night_env)))"
    by (simp add: main_night)
  have n: "nextInterval (main night_env) = 0"
    by (simp add: main_night start_def)
  have h2: "intervals suspended_world = [(0, 1)]"
    by (simp add: suspended_world_fields)
  have h3: "checkTime (now night_env (reads suspended_world))
            \<and> checkTime (now night_env (Suc (reads suspended_world)))"
    by (simp add: suspended_world_fields)
  show ?thesis
    using h1 n h2 h3
      suspend_and_resume_at_same_index [OF m, where j = 0 and t = 0 and i = 0]
      suspend_and_resume_at_same_index [OF suspended_world_def, where j = 0 and t = 0 and i = 1]
    by (simp add: audited_night)
qed

end
